theory Spec2Isabelle
  imports Complex_Main "HOL-Library.Word" "HOL-Library.Signed_Division"
begin

unbundle bit_operations_syntax

section \<open>Data model of WlzNMSuppress.c\<close>

text \<open>
  A C \<open>int\<close> grey value is a 32-bit word: \<open>+\<close>, \<open>-\<close> and \<open>*\<close> wrap around (C leaves
  the overflow of \<open>int\<close> undefined; the model takes the two's complement result),
  comparisons read the word as two's complement (\<open>\<le>s\<close>, \<open><s\<close>) and \<open>/\<close> truncates
  towards zero.  A \<open>UBYTE\<close> direction value is an 8-bit word.  Positions, lengths and
  counters stay far below the word size (they are bounded by the width of the allocated
  row buffer), so they are plain integers.  A buffer is the list of its elements and a
  pointer into it an offset; the theorems state the lengths they need, since a read or
  a write beyond a buffer is undefined in C.
\<close>

type_synonym cint = "32 word"
type_synonym UBYTE = "8 word"

datatype WlzErrorNum =
    WLZ_ERR_NONE
  | WLZ_ERR_EOO
  | WLZ_ERR_OBJECT_NULL
  | WLZ_ERR_OBJECT_TYPE
  | WLZ_ERR_DOMAIN_NULL
  | WLZ_ERR_VALUES_NULL
  | WLZ_ERR_MEM_ALLOC

record WlzIVertex2 =
  vtX :: int
  vtY :: int

text \<open>
  The destination of the scanners: the interval domain \<open>dstIDom\<close> together with its
  interval pool \<open>iPool\<close>.  \<open>itvs\<close> lists the appended runs (line, first column, length)
  in the order of the calls; \<open>avail\<close> is the number of interval records the allocator
  can still hand out.
\<close>

record WlzDynItvPool =
  itvs :: "(int \<times> int \<times> int) list"
  avail :: nat

text \<open>
  Modelled from the spec: \<open>WlzDynItvAdd\<close> is not part of WlzNMSuppress.c.  The spec's
  Interval Pool contract: \<open>append(row, startColumn, length)\<close> stores one record, never
  touches the records stored before, and an allocation failure is an error that the
  caller propagates.
\<close>

definition WlzDynItvAdd ::
  "WlzDynItvPool \<Rightarrow> int \<Rightarrow> int \<Rightarrow> int \<Rightarrow> WlzErrorNum \<times> WlzDynItvPool" where
  "WlzDynItvAdd pool line iLft iLen =
     (if avail pool = 0 then (WLZ_ERR_MEM_ALLOC, pool)
      else (WLZ_ERR_NONE,
            pool\<lparr>itvs := itvs pool @ [(line, iLft, iLen)], avail := avail pool - 1\<rparr>))"

section \<open>Direction code\<close>

definition dTable :: "UBYTE list" where
  "dTable = [3, 2, 0, 1, 4, 5, 7, 6]"

text \<open>C integer division of two \<open>int\<close>s: the quotient truncated towards zero.\<close>

definition cdiv :: "cint \<Rightarrow> cint \<Rightarrow> cint" where
  "cdiv a b = word_of_int (sint a sdiv sint b)"

text \<open>
  The index into \<open>dTable\<close>:
  \<^verbatim>\<open>((gY >= 0) << 2) | ((gX >= 0) << 1) | ((gY * gY) >= (gX * gX))\<close>.
\<close>

definition dIndexI :: "cint \<Rightarrow> cint \<Rightarrow> nat" where
  "dIndexI gY gX =
     push_bit 2 (of_bool (0 \<le>s gY)) OR push_bit 1 (of_bool (0 \<le>s gX))
       OR of_bool (gX * gX \<le>s gY * gY)"

definition dIndexD :: "'a::{zero,ord,times} \<Rightarrow> 'a \<Rightarrow> nat" where
  "dIndexD gY gX =
     push_bit 2 (of_bool (gY \<ge> 0)) OR push_bit 1 (of_bool (gX \<ge> 0))
       OR of_bool (gY * gY \<ge> gX * gX)"

section \<open>The integer scanner WlzNMSuppress2DBufI\<close>

text \<open>
  The \<open>switch(dCode)\<close> that interpolates the magnitudes on both sides of the pixel.
  \<open>prv\<close>, \<open>cur\<close> and \<open>nxt\<close> are the three rows of the magnitude ring and \<open>p\<close> is the
  offset of the walking pointers \<open>grdMBufPrv\<close>, \<open>grdMBufCur\<close>, \<open>grdMBufNxt\<close> in them, so
  that \<open>*(grdMBufCur + 2)\<close> is \<open>cur ! (p + 2)\<close>.  The result is \<open>(gMLft, gMRgt)\<close>.  The
  switch has no default; \<open>dTable\<close> holds the codes 0..7 only, so one of the eight cases
  is always taken and the last branch below is never reached.
\<close>

definition slopesI ::
  "UBYTE \<Rightarrow> cint list \<Rightarrow> cint list \<Rightarrow> cint list \<Rightarrow> nat \<Rightarrow> cint \<Rightarrow> cint \<Rightarrow> cint \<Rightarrow> cint \<times> cint" where
  "slopesI dCode prv cur nxt p gM gY gX =
    (if dCode = 0 then
       (let g0 = cur ! (p + 0); g1 = nxt ! (p + 0);
            gMLft = cdiv (((gM - g0) * gX) - ((g0 - g1) * gY)) gM;
            g0 = cur ! (p + 2); g1 = prv ! (p + 2);
            gMRgt = cdiv (((gM - g0) * gX) - ((g0 - g1) * gY)) gM
        in (gMLft, gMRgt))
     else if dCode = 1 then
       (let g0 = nxt ! (p + 1); g1 = nxt ! (p + 0);
            gMLft = cdiv (((g0 - g1) * gX) - ((gM - g0) * gY)) gM;
            g0 = prv ! (p + 1); g1 = prv ! (p + 2);
            gMRgt = cdiv (((g0 - g1) * gX) - ((gM - g0) * gY)) gM
        in (gMLft, gMRgt))
     else if dCode = 2 then
       (let g0 = nxt ! (p + 1); g1 = nxt ! (p + 2);
            gMLft = cdiv (((g1 - g0) * gX) - ((gM - g0) * gY)) gM;
            g0 = prv ! (p + 1); g1 = prv ! (p + 0);
            gMRgt = cdiv (((g1 - g0) * gX) - ((gM - g0) * gY)) gM
        in (gMLft, gMRgt))
     else if dCode = 3 then
       (let g0 = cur ! (p + 2); g1 = nxt ! (p + 2);
            gMLft = cdiv (((g0 - gM) * gX) - ((g0 - g1) * gY)) gM;
            g0 = cur ! (p + 0); g1 = prv ! (p + 0);
            gMRgt = cdiv (((g0 - gM) * gX) - ((g0 - g1) * gY)) gM
        in (gMLft, gMRgt))
     else if dCode = 4 then
       (let g0 = cur ! (p + 2); g1 = prv ! (p + 2);
            gMLft = cdiv (((g0 - gM) * gX) - ((g1 - g0) * gY)) gM;
            g0 = cur ! (p + 0); g1 = nxt ! (p + 0);
            gMRgt = cdiv (((g0 - gM) * gX) - ((g1 - g0) * gY)) gM
        in (gMLft, gMRgt))
     else if dCode = 5 then
       (let g0 = prv ! (p + 1); g1 = prv ! (p + 2);
            gMLft = cdiv (((g1 - g0) * gX) - ((g0 - gM) * gY)) gM;
            g0 = nxt ! (p + 1); g1 = nxt ! (p + 0);
            gMRgt = cdiv (((g1 - g0) * gX) - ((g0 - gM) * gY)) gM
        in (gMLft, gMRgt))
     else if dCode = 6 then
       (let g0 = prv ! (p + 1); g1 = prv ! (p + 0);
            gMLft = cdiv (((g0 - g1) * gX) - ((g0 - gM) * gY)) gM;
            g0 = nxt ! (p + 1); g1 = nxt ! (p + 2);
            gMRgt = cdiv (((g0 - g1) * gX) - ((g0 - gM) * gY)) gM
        in (gMLft, gMRgt))
     else if dCode = 7 then
       (let g0 = cur ! (p + 0); g1 = prv ! (p + 0);
            gMLft = cdiv (((gM - g0) * gX) - ((g1 - g0) * gY)) gM;
            g0 = cur ! (p + 2); g1 = nxt ! (p + 2);
            gMRgt = cdiv (((gM - g0) * gX) - ((g1 - g0) * gY)) gM
        in (gMLft, gMRgt))
     else (0, 0))"

text \<open>
  The inputs that the loop only reads: the three magnitude rows selected from the ring,
  the two derivative rows, the threshold, the original \<open>dstPos\<close> and \<open>orgPos\<close>.
\<close>

record 'a scan_input =
  grdMBufPrv :: "'a list"
  grdMBufCur :: "'a list"
  grdMBufNxt :: "'a list"
  grdYBuf :: "'a list"
  grdXBuf :: "'a list"
  minGM :: 'a
  dstPos :: WlzIVertex2
  orgPos :: WlzIVertex2

text \<open>
  The variables that the loop changes.  \<open>ptr\<close> counts the increments applied so far to
  the walking pointers \<open>grdXBuf\<close>, \<open>grdYBuf\<close>, \<open>dstBuf\<close> and the three magnitude
  pointers (all are advanced once per iteration); \<open>posX\<close> is \<open>dstPos.vtX\<close>.
\<close>

record scan_state =
  cnt :: int
  errNum :: WlzErrorNum
  itvLft :: int
  itvLen :: int
  posX :: int
  ptr :: nat
  dstBuf :: "UBYTE list"
  pool :: WlzDynItvPool

text \<open>
  The test of one pixel: \<open>None\<close> when \<open>maximal\<close> stays 0, \<open>Some dCode\<close> when it is set.
  \<open>p\<close> is the offset of the magnitude pointers at the start of the iteration and \<open>q\<close>
  the offset of \<open>grdXBuf\<close>, \<open>grdYBuf\<close> after their increment.
\<close>

definition pixelI :: "cint scan_input \<Rightarrow> nat \<Rightarrow> nat \<Rightarrow> UBYTE option" where
  "pixelI inp p q =
    (let gM = grdMBufCur inp ! (p + 1) in
     if gM \<noteq> 0 \<and> minGM inp <s gM then
       (let gX = grdXBuf inp ! q;
            gY = grdYBuf inp ! q;
            dCode = dTable ! dIndexI gY gX;
            (gMLft, gMRgt) =
               slopesI dCode (grdMBufPrv inp) (grdMBufCur inp) (grdMBufNxt inp) p gM gY gX
        in if 0 <s gMLft \<and> 0 <s gMRgt then Some dCode else None)
     else None)"

text \<open>One iteration of the loop of \<open>WlzNMSuppress2DBufI\<close>, after \<open>cnt--\<close>.\<close>

definition bodyI :: "cint scan_input \<Rightarrow> scan_state \<Rightarrow> scan_state" where
  "bodyI inp s =
    (let q = ptr s + 1;
         buf1 = (dstBuf s)[q := 0];
         maximal = pixelI inp (nat (vtX (dstPos inp)) + ptr s) q;
         (len1, lft1, buf2) =
            (case maximal of
               None \<Rightarrow> (itvLen s, itvLft s, buf1)
             | Some dCode \<Rightarrow>
                 (if itvLen s \<noteq> 0 then (itvLen s + 1, itvLft s, buf1[q := dCode OR 0x80])
                  else (1, posX s, buf1[q := dCode OR 0x80])));
         (err, len2, pool') =
            (if 0 < len1 \<and> (cnt s = 0 \<or> maximal = None) then
               (let (e, d) = WlzDynItvAdd (pool s) (vtY (dstPos inp) + vtY (orgPos inp))
                                 (lft1 + vtX (orgPos inp)) len1
                in (e, 0, d))
             else (errNum s, len1, pool s))
     in s\<lparr>errNum := err, itvLft := lft1, itvLen := len2, posX := posX s + 1,
          ptr := ptr s + 1, dstBuf := buf2, pool := pool'\<rparr>)"

text \<open>
  \<^verbatim>\<open>while((errNum == WLZ_ERR_NONE) && (cnt-- > 0))\<close>.  The value of \<open>cnt\<close> after the
  last test is not used any more.
\<close>

function loopI :: "cint scan_input \<Rightarrow> scan_state \<Rightarrow> scan_state" where
  "loopI inp s =
     (if errNum s = WLZ_ERR_NONE \<and> 0 < cnt s
      then loopI inp (bodyI inp (s\<lparr>cnt := cnt s - 1\<rparr>))
      else s)"
  by pat_completeness auto
termination
  by (relation "measure (\<lambda>(inp, s). nat (cnt s))")
     (auto simp: bodyI_def Let_def split: option.splits prod.splits)

declare loopI.simps [simp del]

text \<open>
  The selection of the ring rows \<^verbatim>\<open>*(grdMBuf + ((dstPos.vtY + 3 - 1) % 3))\<close>; C's \<open>%\<close> is
  the remainder of the truncating division.
\<close>

definition ring_row :: "'a list list \<Rightarrow> int \<Rightarrow> 'a list" where
  "ring_row grdMBuf i = grdMBuf ! nat (i smod 3)"

definition scan_inputs ::
  "'a list list \<Rightarrow> 'a list \<Rightarrow> 'a list \<Rightarrow> WlzIVertex2 \<Rightarrow> WlzIVertex2 \<Rightarrow> 'a \<Rightarrow> 'a scan_input" where
  "scan_inputs grdMBuf gYBuf gXBuf dPos oPos minG =
     \<lparr>grdMBufPrv = ring_row grdMBuf (vtY dPos + 3 - 1),
      grdMBufCur = ring_row grdMBuf (vtY dPos + 3 + 0),
      grdMBufNxt = ring_row grdMBuf (vtY dPos + 3 + 1),
      grdYBuf = gYBuf, grdXBuf = gXBuf, minGM = minG, dstPos = dPos, orgPos = oPos\<rparr>"

text \<open>The state at the head of the loop, after the two boundary writes.\<close>

definition scan_init :: "WlzDynItvPool \<Rightarrow> UBYTE list \<Rightarrow> int \<Rightarrow> WlzIVertex2 \<Rightarrow> scan_state" where
  "scan_init dst buf dstLen dPos =
     \<lparr>cnt = dstLen - 2, errNum = WLZ_ERR_NONE, itvLft = vtX dPos + 1, itvLen = 0,
      posX = vtX dPos + 1, ptr = 0,
      dstBuf = (buf[0 := 0])[nat (dstLen - 1) := 0], pool = dst\<rparr>"

definition WlzNMSuppress2DBufI ::
  "WlzDynItvPool \<Rightarrow> cint list list \<Rightarrow> cint list \<Rightarrow> cint list \<Rightarrow> UBYTE list \<Rightarrow> int \<Rightarrow>
   WlzIVertex2 \<Rightarrow> WlzIVertex2 \<Rightarrow> cint \<Rightarrow> WlzErrorNum \<times> UBYTE list \<times> WlzDynItvPool" where
  "WlzNMSuppress2DBufI dst grdMBuf gYBuf gXBuf buf dstLen dPos oPos minG =
     (let s = loopI (scan_inputs grdMBuf gYBuf gXBuf dPos oPos minG)
                    (scan_init dst buf dstLen dPos)
      in (errNum s, dstBuf s, pool s))"

section \<open>The floating scanner WlzNMSuppress2DBufD\<close>

text \<open>
  The arithmetic of C's \<open>double\<close> is not interpreted: the floating scanner is
  polymorphic in the type of the samples, of which it uses \<open>0\<close>, \<open>*\<close>, \<open>-\<close>, \<open>/\<close>,
  \<open>>\<close> and \<open>\<ge>\<close> only, and it takes \<open>DBL_EPSILON\<close> of \<open>float.h\<close> as a parameter.  What
  is proved of it at this generality holds for every rounding of these operations;
  concrete rows are evaluated over the reals, on samples where no operation rounds.
  The switch is the one of the integer scanner with \<open>/\<close> on the samples (in the branch
  that is never reached the two slopes are left as some sample).
\<close>

definition slopesD ::
  "UBYTE \<Rightarrow> 'a::{minus,times,inverse} list \<Rightarrow> 'a list \<Rightarrow> 'a list \<Rightarrow> nat \<Rightarrow> 'a \<Rightarrow> 'a \<Rightarrow> 'a \<Rightarrow> 'a \<times> 'a" where
  "slopesD dCode prv cur nxt p gM gY gX =
    (if dCode = 0 then
       (let g0 = cur ! (p + 0); g1 = nxt ! (p + 0);
            gMLft = (((gM - g0) * gX) - ((g0 - g1) * gY)) / gM;
            g0 = cur ! (p + 2); g1 = prv ! (p + 2);
            gMRgt = (((gM - g0) * gX) - ((g0 - g1) * gY)) / gM
        in (gMLft, gMRgt))
     else if dCode = 1 then
       (let g0 = nxt ! (p + 1); g1 = nxt ! (p + 0);
            gMLft = (((g0 - g1) * gX) - ((gM - g0) * gY)) / gM;
            g0 = prv ! (p + 1); g1 = prv ! (p + 2);
            gMRgt = (((g0 - g1) * gX) - ((gM - g0) * gY)) / gM
        in (gMLft, gMRgt))
     else if dCode = 2 then
       (let g0 = nxt ! (p + 1); g1 = nxt ! (p + 2);
            gMLft = (((g1 - g0) * gX) - ((gM - g0) * gY)) / gM;
            g0 = prv ! (p + 1); g1 = prv ! (p + 0);
            gMRgt = (((g1 - g0) * gX) - ((gM - g0) * gY)) / gM
        in (gMLft, gMRgt))
     else if dCode = 3 then
       (let g0 = cur ! (p + 2); g1 = nxt ! (p + 2);
            gMLft = (((g0 - gM) * gX) - ((g0 - g1) * gY)) / gM;
            g0 = cur ! (p + 0); g1 = prv ! (p + 0);
            gMRgt = (((g0 - gM) * gX) - ((g0 - g1) * gY)) / gM
        in (gMLft, gMRgt))
     else if dCode = 4 then
       (let g0 = cur ! (p + 2); g1 = prv ! (p + 2);
            gMLft = (((g0 - gM) * gX) - ((g1 - g0) * gY)) / gM;
            g0 = cur ! (p + 0); g1 = nxt ! (p + 0);
            gMRgt = (((g0 - gM) * gX) - ((g1 - g0) * gY)) / gM
        in (gMLft, gMRgt))
     else if dCode = 5 then
       (let g0 = prv ! (p + 1); g1 = prv ! (p + 2);
            gMLft = (((g1 - g0) * gX) - ((g0 - gM) * gY)) / gM;
            g0 = nxt ! (p + 1); g1 = nxt ! (p + 0);
            gMRgt = (((g1 - g0) * gX) - ((g0 - gM) * gY)) / gM
        in (gMLft, gMRgt))
     else if dCode = 6 then
       (let g0 = prv ! (p + 1); g1 = prv ! (p + 0);
            gMLft = (((g0 - g1) * gX) - ((g0 - gM) * gY)) / gM;
            g0 = nxt ! (p + 1); g1 = nxt ! (p + 2);
            gMRgt = (((g0 - g1) * gX) - ((g0 - gM) * gY)) / gM
        in (gMLft, gMRgt))
     else if dCode = 7 then
       (let g0 = cur ! (p + 0); g1 = prv ! (p + 0);
            gMLft = (((gM - g0) * gX) - ((g1 - g0) * gY)) / gM;
            g0 = cur ! (p + 2); g1 = nxt ! (p + 2);
            gMRgt = (((gM - g0) * gX) - ((g1 - g0) * gY)) / gM
        in (gMLft, gMRgt))
     else (gM, gM))"

text \<open>The test of one pixel, as \<open>pixelI\<close>; \<open>eps\<close> is \<open>DBL_EPSILON\<close>.\<close>

definition pixelD :: "'a::{zero,ord,minus,times,inverse} \<Rightarrow> 'a scan_input \<Rightarrow> nat \<Rightarrow> nat \<Rightarrow> UBYTE option" where
  "pixelD eps inp p q =
    (let gM = grdMBufCur inp ! (p + 1) in
     if (gM * gM) > eps \<and> gM > minGM inp then
       (let gX = grdXBuf inp ! q;
            gY = grdYBuf inp ! q;
            dCode = dTable ! dIndexD gY gX;
            (gMLft, gMRgt) =
               slopesD dCode (grdMBufPrv inp) (grdMBufCur inp) (grdMBufNxt inp) p gM gY gX
        in if gMLft > eps \<and> gMRgt > eps then Some dCode else None)
     else None)"

text \<open>
  One iteration of the loop of \<open>WlzNMSuppress2DBufD\<close>, after \<open>cnt--\<close>.  When the pixel
  is maximal this variant only stores the direction byte: \<open>itvLen\<close>, \<open>itvLft\<close> and
  \<open>dstPos.vtX\<close> are not assigned anywhere in its loop.
\<close>

definition bodyD :: "'a::{zero,ord,minus,times,inverse} \<Rightarrow> 'a scan_input \<Rightarrow> scan_state \<Rightarrow> scan_state" where
  "bodyD eps inp s =
    (let q = ptr s + 1;
         buf1 = (dstBuf s)[q := 0];
         maximal = pixelD eps inp (nat (vtX (dstPos inp)) + ptr s) q;
         buf2 = (case maximal of None \<Rightarrow> buf1 | Some dCode \<Rightarrow> buf1[q := dCode OR 0x80]);
         (err, len2, pool') =
            (if 0 < itvLen s \<and> (cnt s = 0 \<or> maximal = None) then
               (let (e, d) = WlzDynItvAdd (pool s) (vtY (dstPos inp) + vtY (orgPos inp))
                                 (itvLft s + vtX (orgPos inp)) (itvLen s)
                in (e, 0, d))
             else (errNum s, itvLen s, pool s))
     in s\<lparr>errNum := err, itvLen := len2, ptr := ptr s + 1, dstBuf := buf2, pool := pool'\<rparr>)"

function loopD :: "'a::{zero,ord,minus,times,inverse} \<Rightarrow> 'a scan_input \<Rightarrow> scan_state \<Rightarrow> scan_state" where
  "loopD eps inp s =
     (if errNum s = WLZ_ERR_NONE \<and> 0 < cnt s
      then loopD eps inp (bodyD eps inp (s\<lparr>cnt := cnt s - 1\<rparr>))
      else s)"
  by pat_completeness auto
termination
  by (relation "measure (\<lambda>(eps, inp, s). nat (cnt s))")
     (auto simp: bodyD_def Let_def split: option.splits prod.splits)

declare loopD.simps [simp del]

definition WlzNMSuppress2DBufD ::
  "'a::{zero,ord,minus,times,inverse} \<Rightarrow> WlzDynItvPool \<Rightarrow> 'a list list \<Rightarrow> 'a list \<Rightarrow> 'a list \<Rightarrow>
   UBYTE list \<Rightarrow> int \<Rightarrow> WlzIVertex2 \<Rightarrow> WlzIVertex2 \<Rightarrow> 'a \<Rightarrow>
   WlzErrorNum \<times> UBYTE list \<times> WlzDynItvPool" where
  "WlzNMSuppress2DBufD eps dst grdMBuf gYBuf gXBuf buf dstLen dPos oPos minG =
     (let s = loopD eps (scan_inputs grdMBuf gYBuf gXBuf dPos oPos minG)
                    (scan_init dst buf dstLen dPos)
      in (errNum s, dstBuf s, pool s))"

section \<open>The entry point WlzNMSuppress\<close>

text \<open>
  The types an object can have; the last three stand for the types that are neither
  a odomain object nor the empty object.
\<close>

datatype WlzObjectType =
    WLZ_2D_DOMAINOBJ
  | WLZ_3D_DOMAINOBJ
  | WLZ_EMPTY_OBJ
  | WLZ_2D_POLYGON
  | WLZ_BOUNDLIST
  | WLZ_TRANS_OBJ

text \<open>
  An object: its type, its domain and its values.  A domain is the set of its pixels
  (plane, line, column); \<open>None\<close> is a NULL \<open>core\<close> pointer.  The representation of the
  values and of the threshold \<open>WlzPixelV\<close> does not matter to \<open>WlzNMSuppress\<close>: they
  are type parameters.  An object pointer is an option, \<open>None\<close> for NULL.
\<close>

record 'v WlzObject =
  otype :: WlzObjectType
  odomain :: "(int \<times> int \<times> int) set option"
  ovalues :: "'v option"

text \<open>
  Modelled from the spec: \<open>WlzMakeEmpty\<close> and \<open>WlzMakeMain\<close> are not part of
  WlzNMSuppress.c.  The spec's geometry library "constructs the empty object" and
  "constructs a region object" from a type, a domain and values.
\<close>

definition WlzMakeEmpty :: "WlzErrorNum \<times> 'v WlzObject option" where
  "WlzMakeEmpty = (WLZ_ERR_NONE, Some \<lparr>otype = WLZ_EMPTY_OBJ, odomain = None, ovalues = None\<rparr>)"

definition WlzMakeMain ::
  "WlzObjectType \<Rightarrow> (int \<times> int \<times> int) set option \<Rightarrow> 'v option \<Rightarrow>
   WlzErrorNum \<times> 'v WlzObject option" where
  "WlzMakeMain t d v = (WLZ_ERR_NONE, Some \<lparr>otype = t, odomain = d, ovalues = v\<rparr>)"

text \<open>
  Modelled from the spec: \<open>WlzIntersectN\<close> is not part of WlzNMSuppress.c.  The spec's
  geometry library "intersects N regions": the result is the empty object when the
  regions share no pixel, and otherwise an object of the type of the regions over their
  common pixels, without values.  A missing object, a missing domain and objects of
  different types are the spec's "missing input" and "mismatched dimensionality"
  outcomes; an empty object among the inputs makes the intersection empty.
\<close>

definition WlzIntersectN :: "'v WlzObject option list \<Rightarrow> WlzErrorNum \<times> 'v WlzObject option" where
  "WlzIntersectN objs =
     (if objs = [] \<or> None \<in> set objs then (WLZ_ERR_OBJECT_NULL, None)
      else
        (let os = map the objs in
         if \<exists>ob \<in> set os. otype ob = WLZ_EMPTY_OBJ then WlzMakeEmpty
         else if \<exists>ob \<in> set os. otype ob \<noteq> otype (hd os) then (WLZ_ERR_OBJECT_TYPE, None)
         else if \<exists>ob \<in> set os. odomain ob = None then (WLZ_ERR_DOMAIN_NULL, None)
         else
           (let d = \<Inter> (set (map (\<lambda>ob. the (odomain ob)) os)) in
            if d = {} then WlzMakeEmpty
            else (WLZ_ERR_NONE, Some \<lparr>otype = otype (hd os), odomain = Some d, ovalues = None\<rparr>))))"

text \<open>
  \<open>WlzNMSuppress2D\<close>: the checks at its head are the source's.  What follows them (the
  choice of the buffer type, the conversion of the threshold, the allocation of the row
  buffers and of the destination, the lock-step scan of the four objects that calls the
  scanners above, and the packaging of the result) runs on library functions that are
  not in WlzNMSuppress.c; it reads the three objects and the threshold only and is the
  parameter \<open>scan\<close>.
\<close>

definition WlzNMSuppress2D ::
  "('v WlzObject \<Rightarrow> 'v WlzObject \<Rightarrow> 'v WlzObject \<Rightarrow> 'p \<Rightarrow> WlzErrorNum \<times> 'v WlzObject option) \<Rightarrow>
   'v WlzObject \<Rightarrow> 'v WlzObject \<Rightarrow> 'v WlzObject \<Rightarrow> 'p \<Rightarrow> WlzErrorNum \<times> 'v WlzObject option" where
  "WlzNMSuppress2D scan grdM grdY grdX minThrV =
     (if otype grdM \<noteq> WLZ_2D_DOMAINOBJ \<or> otype grdY \<noteq> WLZ_2D_DOMAINOBJ \<or>
         otype grdX \<noteq> WLZ_2D_DOMAINOBJ
      then (WLZ_ERR_OBJECT_NULL, None)
      else if odomain grdM = None \<or> odomain grdY = None \<or> odomain grdX = None
      then (WLZ_ERR_DOMAIN_NULL, None)
      else if ovalues grdM = None \<or> ovalues grdY = None \<or> ovalues grdX = None
      then (WLZ_ERR_VALUES_NULL, None)
      else scan grdM grdY grdX minThrV)"

text \<open>\<open>WlzNMSuppress3D\<close>: \<^verbatim>\<open>errNum = WLZ_ERR_OBJECT_TYPE; /* TODO implement this function */\<close>.\<close>

definition WlzNMSuppress3D ::
  "'v WlzObject \<Rightarrow> 'v WlzObject \<Rightarrow> 'v WlzObject \<Rightarrow> 'v WlzObject \<Rightarrow> 'p \<Rightarrow>
   WlzErrorNum \<times> 'v WlzObject option" where
  "WlzNMSuppress3D grdM grdZ grdY grdX minThrV = (WLZ_ERR_OBJECT_TYPE, None)"

text \<open>
  \<open>WlzNMSuppress\<close> returns the pair of \<open>*dstErr\<close> and the object.  \<open>grdZ\<close>, \<open>grdY\<close> and
  \<open>grdX\<close> are dereferenced only after \<open>WlzIntersectN\<close> has returned without error, which
  it does not when one of them is NULL.  The calls of \<open>WlzFreeObj\<close> are not modelled.
\<close>

definition WlzNMSuppress ::
  "('v WlzObject \<Rightarrow> 'v WlzObject \<Rightarrow> 'v WlzObject \<Rightarrow> 'p \<Rightarrow> WlzErrorNum \<times> 'v WlzObject option) \<Rightarrow>
   'v WlzObject option \<Rightarrow> 'v WlzObject option \<Rightarrow> 'v WlzObject option \<Rightarrow> 'v WlzObject option \<Rightarrow>
   'p \<Rightarrow> WlzErrorNum \<times> 'v WlzObject option" where
  "WlzNMSuppress scan grdM grdZ grdY grdX minThrV =
    (case grdM of
       None \<Rightarrow> (WLZ_ERR_OBJECT_NULL, None)
     | Some m \<Rightarrow>
        (case otype m of
           WLZ_2D_DOMAINOBJ \<Rightarrow>
             (case WlzIntersectN [grdM, grdY, grdX] of
                (WLZ_ERR_NONE, istObj) \<Rightarrow>
                  (case otype (the istObj) of
                     WLZ_2D_DOMAINOBJ \<Rightarrow>
                       (case WlzMakeMain WLZ_2D_DOMAINOBJ (odomain (the istObj)) (ovalues m) of
                          (WLZ_ERR_NONE, t0) \<Rightarrow>
                            (case WlzMakeMain WLZ_2D_DOMAINOBJ (odomain (the istObj))
                                    (ovalues (the grdY)) of
                               (WLZ_ERR_NONE, t1) \<Rightarrow>
                                 (case WlzMakeMain WLZ_2D_DOMAINOBJ (odomain (the istObj))
                                         (ovalues (the grdX)) of
                                    (WLZ_ERR_NONE, t2) \<Rightarrow>
                                      WlzNMSuppress2D scan (the t0) (the t1) (the t2) minThrV
                                  | (e, _) \<Rightarrow> (e, None))
                             | (e, _) \<Rightarrow> (e, None))
                        | (e, _) \<Rightarrow> (e, None))
                   | WLZ_EMPTY_OBJ \<Rightarrow> WlzMakeEmpty
                   | _ \<Rightarrow> (WLZ_ERR_OBJECT_TYPE, None))
              | (e, _) \<Rightarrow> (e, None))
         | WLZ_3D_DOMAINOBJ \<Rightarrow>
             (case WlzIntersectN [grdM, grdZ, grdY, grdX] of
                (WLZ_ERR_NONE, istObj) \<Rightarrow>
                  (case otype (the istObj) of
                     WLZ_2D_DOMAINOBJ \<Rightarrow>
                       (case WlzMakeMain WLZ_2D_DOMAINOBJ (odomain (the istObj)) (ovalues m) of
                          (WLZ_ERR_NONE, t0) \<Rightarrow>
                            (case WlzMakeMain WLZ_2D_DOMAINOBJ (odomain (the istObj))
                                    (ovalues (the grdZ)) of
                               (WLZ_ERR_NONE, t1) \<Rightarrow>
                                 (case WlzMakeMain WLZ_2D_DOMAINOBJ (odomain (the istObj))
                                         (ovalues (the grdY)) of
                                    (WLZ_ERR_NONE, t2) \<Rightarrow>
                                      (case WlzMakeMain WLZ_2D_DOMAINOBJ (odomain (the istObj))
                                              (ovalues (the grdX)) of
                                         (WLZ_ERR_NONE, t3) \<Rightarrow>
                                           WlzNMSuppress3D (the t0) (the t1) (the t2) (the t3) minThrV
                                       | (e, _) \<Rightarrow> (e, None))
                                  | (e, _) \<Rightarrow> (e, None))
                             | (e, _) \<Rightarrow> (e, None))
                        | (e, _) \<Rightarrow> (e, None))
                   | WLZ_EMPTY_OBJ \<Rightarrow> WlzMakeEmpty
                   | _ \<Rightarrow> (WLZ_ERR_OBJECT_TYPE, None))
              | (e, _) \<Rightarrow> (e, None))
         | WLZ_EMPTY_OBJ \<Rightarrow> WlzMakeEmpty
         | _ \<Rightarrow> (WLZ_ERR_OBJECT_TYPE, None)))"

section \<open>Example rows\<close>

text \<open>
  A row of magnitudes 16 64 64 64 16 between two rows of 16 in the ring, with the
  derivatives \<open>gY = 2\<close> and \<open>gX = 0\<close>, once as \<open>int\<close> and once as \<open>double\<close> samples; every
  floating operation of the scanner on it is exact.  Its three interior pixels are
  maximal in both scanners (code 6, slopes \<open>96 / 64\<close>).
\<close>

definition ridgeM :: "cint list list" where
  "ridgeM = [[16, 16, 16, 16, 16], [16, 64, 64, 64, 16], [16, 16, 16, 16, 16]]"

definition ridgeY :: "cint list" where
  "ridgeY = [2, 2, 2, 2, 2]"

definition ridgeX :: "cint list" where
  "ridgeX = [0, 0, 0, 0, 0]"

definition ridgeMD :: "real list list" where
  "ridgeMD = [[16, 16, 16, 16, 16], [16, 64, 64, 64, 16], [16, 16, 16, 16, 16]]"

definition ridgeYD :: "real list" where
  "ridgeYD = [2, 2, 2, 2, 2]"

definition ridgeXD :: "real list" where
  "ridgeXD = [0, 0, 0, 0, 0]"

text \<open>
  The direction buffer of the row before the scan, an empty destination with room for
  five runs, the row's position (column 0 of line 1, whose ring slots are 0, 1, 2) and
  the origin.
\<close>

definition dirBuf :: "UBYTE list" where
  "dirBuf = [9, 9, 9, 9, 9]"

definition emptyPool :: WlzDynItvPool where
  "emptyPool = \<lparr>itvs = [], avail = 5\<rparr>"

definition rowPos :: WlzIVertex2 where
  "rowPos = \<lparr>vtX = 0, vtY = 1\<rparr>"

definition origin :: WlzIVertex2 where
  "origin = \<lparr>vtX = 100, vtY = 10\<rparr>"

section \<open>Vocabulary of the proofs\<close>

definition byte_of :: "UBYTE option \<Rightarrow> UBYTE" where
  "byte_of m = (case m of None \<Rightarrow> 0 | Some dCode \<Rightarrow> dCode OR 0x80)"

definition pixI :: "cint scan_input \<Rightarrow> nat \<Rightarrow> UBYTE option" where
  "pixI inp j = pixelI inp (nat (vtX (dstPos inp)) + (j - 1)) j"

definition covered :: "(int \<times> int \<times> int) list \<Rightarrow> int set" where
  "covered rs = (\<Union>(y, l, len) \<in> set rs. {l ..< l + len})"

definition retained_cols :: "cint scan_input \<Rightarrow> nat \<Rightarrow> int set" where
  "retained_cols inp k =
     (\<lambda>j. vtX (dstPos inp) + vtX (orgPos inp) + int j) `
        {j. 1 \<le> j \<and> j \<le> k \<and> pixI inp j \<noteq> None}"

definition invI_cnt :: "int \<Rightarrow> cint scan_input \<Rightarrow> scan_state \<Rightarrow> bool" where
  "invI_cnt n inp s \<longleftrightarrow>
     int (ptr s) + cnt s = n - 2 \<and> (ptr s = 0 \<or> 0 \<le> cnt s) \<and>
     posX s = vtX (dstPos inp) + 1 + int (ptr s)"

definition invI_buf :: "UBYTE list \<Rightarrow> cint scan_input \<Rightarrow> scan_state \<Rightarrow> bool" where
  "invI_buf buf0 inp s \<longleftrightarrow>
     length (dstBuf s) = length buf0 \<and>
     (\<forall>j. 1 \<le> j \<and> j \<le> ptr s \<longrightarrow> dstBuf s ! j = byte_of (pixI inp j)) \<and>
     (\<forall>i. i = 0 \<or> ptr s < i \<longrightarrow> dstBuf s ! i = buf0 ! i)"

definition invI_run :: "WlzDynItvPool \<Rightarrow> cint scan_input \<Rightarrow> scan_state \<Rightarrow> bool" where
  "invI_run p0 inp s \<longleftrightarrow>
     0 \<le> itvLen s \<and> itvLen s \<le> int (ptr s) \<and>
     (0 < itvLen s \<longrightarrow> itvLft s + itvLen s = posX s) \<and>
     (cnt s \<le> 0 \<longrightarrow> itvLen s = 0) \<and>
     (\<exists>new. itvs (pool s) = itvs p0 @ new \<and>
        (\<forall>(y, l, len) \<in> set new.
            y = vtY (dstPos inp) + vtY (orgPos inp) \<and> 1 \<le> len \<and>
            vtX (dstPos inp) + 1 + vtX (orgPos inp) \<le> l \<and> l + len \<le> posX s + vtX (orgPos inp)) \<and>
        (errNum s = WLZ_ERR_NONE \<longrightarrow>
           covered new \<union> {itvLft s + vtX (orgPos inp) ..< itvLft s + vtX (orgPos inp) + itvLen s}
             = retained_cols inp (ptr s)))"

definition invI :: "int \<Rightarrow> UBYTE list \<Rightarrow> WlzDynItvPool \<Rightarrow> cint scan_input \<Rightarrow> scan_state \<Rightarrow> bool" where
  "invI n buf0 p0 inp s \<longleftrightarrow> invI_cnt n inp s \<and> invI_buf buf0 inp s \<and> invI_run p0 inp s"

definition pixD :: "'a::{zero,ord,minus,times,inverse} \<Rightarrow> 'a scan_input \<Rightarrow> nat \<Rightarrow> UBYTE option" where
  "pixD eps inp j = pixelD eps inp (nat (vtX (dstPos inp)) + (j - 1)) j"

definition invD ::
  "int \<Rightarrow> UBYTE list \<Rightarrow> WlzDynItvPool \<Rightarrow> 'a::{zero,ord,minus,times,inverse} \<Rightarrow> 'a scan_input \<Rightarrow>
   scan_state \<Rightarrow> bool" where
  "invD n buf0 p0 eps inp s \<longleftrightarrow>
     int (ptr s) + cnt s = n - 2 \<and> (ptr s = 0 \<or> 0 \<le> cnt s) \<and>
     length (dstBuf s) = length buf0 \<and>
     (\<forall>j. 1 \<le> j \<and> j \<le> ptr s \<longrightarrow> dstBuf s ! j = byte_of (pixD eps inp j)) \<and>
     (\<forall>i. i = 0 \<or> ptr s < i \<longrightarrow> dstBuf s ! i = buf0 ! i) \<and>
     itvLen s = 0 \<and> errNum s = WLZ_ERR_NONE \<and> pool s = p0"

text \<open>
  For the comparison of the two scanners on integer samples: \<open>DBL_EPSILON\<close> of
  \<open>float.h\<close> (\<open>2\<^sup>-\<^sup>5\<^sup>2\<close>), the conversion of an \<open>int\<close> sample to \<open>double\<close> (exact, every
  \<open>int\<close> is a \<open>double\<close>), and samples of absolute value at most \<open>2\<^sup>1\<^sup>4\<close>, on which the
  32-bit arithmetic of the integer scanner does not overflow.
\<close>

definition small_sample :: "cint \<Rightarrow> bool" where
  "small_sample v \<longleftrightarrow> \<bar>sint v\<bar> \<le> 2 ^ 14"

definition DBL_EPSILON :: real where
  "DBL_EPSILON = 1 / 2 ^ 52"

definition to_double :: "cint \<Rightarrow> real" where
  "to_double v = real_of_int (sint v)"

definition small_row :: "cint list \<Rightarrow> bool" where
  "small_row r \<longleftrightarrow> (\<forall>v \<in> set r. small_sample v)"

text \<open>
  For the runs of the integer scanner: the runs appended since the call, the columns
  of the retained pixels of the whole row, and the order of two runs that are separated
  by at least one column.
\<close>

definition new_runs :: "WlzDynItvPool \<Rightarrow> scan_state \<Rightarrow> (int \<times> int \<times> int) list" where
  "new_runs p0 s = drop (length (itvs p0)) (itvs (pool s))"

definition row_retained :: "cint scan_input \<Rightarrow> int \<Rightarrow> int set" where
  "row_retained inp n = retained_cols inp (nat (n - 2))"

definition run_before :: "int \<times> int \<times> int \<Rightarrow> int \<times> int \<times> int \<Rightarrow> bool" where
  "run_before r r' \<longleftrightarrow> fst (snd r) + snd (snd r) < fst (snd r')"

definition invI_max :: "int \<Rightarrow> WlzDynItvPool \<Rightarrow> cint scan_input \<Rightarrow> scan_state \<Rightarrow> bool" where
  "invI_max n p0 inp s \<longleftrightarrow>
     (\<forall>(y, l, len) \<in> set (new_runs p0 s).
         l - 1 \<notin> row_retained inp n \<and> l + len \<notin> row_retained inp n \<and>
         (0 < cnt s \<longrightarrow> l + len < posX s + vtX (orgPos inp))) \<and>
     sorted_wrt run_before (new_runs p0 s) \<and>
     (0 < itvLen s \<longrightarrow>
        itvLft s + vtX (orgPos inp) - 1 \<notin> row_retained inp n \<and>
        (\<forall>(y, l, len) \<in> set (new_runs p0 s). l + len < itvLft s + vtX (orgPos inp))) \<and>
     (itvLen s = 0 \<and> 0 < cnt s \<and> errNum s = WLZ_ERR_NONE \<longrightarrow>
        ptr s = 0 \<or> pixI inp (ptr s) = None)"

section \<open>The loop of the integer scanner\<close>

lemma ptr_bodyI [simp]: "ptr (bodyI inp s) = ptr s + 1"
  apply (simp add: bodyI_def Let_def split: option.splits prod.splits)
  done

lemma cnt_bodyI [simp]: "cnt (bodyI inp s) = cnt s"
  apply (simp add: bodyI_def Let_def split: option.splits prod.splits)
  done

lemma posX_bodyI [simp]: "posX (bodyI inp s) = posX s + 1"
  apply (simp add: bodyI_def Let_def split: option.splits prod.splits)
  done

lemma dstBuf_bodyI:
  "dstBuf (bodyI inp s) = (dstBuf s)[ptr s + 1 := byte_of (pixI inp (ptr s + 1))]"
  apply (simp add: bodyI_def Let_def byte_of_def pixI_def split: option.splits prod.splits)
  done

lemma loopI_unfold_run:
  "errNum s = WLZ_ERR_NONE \<Longrightarrow> 0 < cnt s \<Longrightarrow>
   loopI inp s = loopI inp (bodyI inp (s\<lparr>cnt := cnt s - 1\<rparr>))"
  apply (subst loopI.simps)
  apply simp
  done

lemma loopI_unfold_stop:
  "\<not> (errNum s = WLZ_ERR_NONE \<and> 0 < cnt s) \<Longrightarrow> loopI inp s = s"
  apply (subst loopI.simps)
  apply auto
  done

lemma loopI_inv:
  assumes "P s"
    and "\<And>s. P s \<Longrightarrow> errNum s = WLZ_ERR_NONE \<Longrightarrow> 0 < cnt s \<Longrightarrow>
               P (bodyI inp (s\<lparr>cnt := cnt s - 1\<rparr>))"
  shows "P (loopI inp s) \<and> (errNum (loopI inp s) \<noteq> WLZ_ERR_NONE \<or> cnt (loopI inp s) \<le> 0)"
  using assms
proof (induction inp s rule: loopI.induct)
  case (1 inp s)
  note step = "1.prems"(2)
  show ?case
  proof (cases "errNum s = WLZ_ERR_NONE \<and> 0 < cnt s")
    case True
    then have e: "errNum s = WLZ_ERR_NONE" and c: "0 < cnt s"
      by simp_all
    have eq: "loopI inp s = loopI inp (bodyI inp (s\<lparr>cnt := cnt s - 1\<rparr>))"
      by (rule loopI_unfold_run [OF e c])
    have "P (bodyI inp (s\<lparr>cnt := cnt s - 1\<rparr>))"
      by (rule step [OF "1.prems"(1) e c])
    from "1.IH" [OF True this step] show ?thesis
      apply (subst (1 2 3) eq)
      apply assumption
      done
  next
    case False
    have eq: "loopI inp s = s"
      by (rule loopI_unfold_stop [OF False])
    from False "1.prems"(1) show ?thesis
      apply (subst (1 2 3) eq)
      apply auto
      done
  qed
qed

lemma pixI_step: "pixelI inp (nat (vtX (dstPos inp)) + k) (Suc k) = pixI inp (Suc k)"
  by (simp add: pixI_def)

lemma invI_cnt_step:
  assumes "invI_cnt n inp s" "0 < cnt s"
  shows "invI_cnt n inp (bodyI inp (s\<lparr>cnt := cnt s - 1\<rparr>))"
  using assms by (auto simp: invI_cnt_def)

lemma invI_buf_step:
  assumes "invI_buf buf0 inp s" "ptr s + 1 < length buf0"
  shows "invI_buf buf0 inp (bodyI inp (s\<lparr>cnt := cnt s - 1\<rparr>))"
  using assms by (auto simp: invI_buf_def dstBuf_bodyI nth_list_update le_Suc_eq)

lemma covered_Nil [simp]: "covered [] = {}"
  by (simp add: covered_def)

lemma covered_snoc [simp]: "covered (rs @ [(y, l, len)]) = covered rs \<union> {l ..< l + len}"
  by (auto simp: covered_def)

lemma retained_cols_Suc:
  "retained_cols inp (Suc k) =
     retained_cols inp k \<union>
       (if pixI inp (Suc k) \<noteq> None then {vtX (dstPos inp) + vtX (orgPos inp) + int (Suc k)} else {})"
proof -
  have "{j. 1 \<le> j \<and> j \<le> Suc k \<and> pixI inp j \<noteq> None} =
        {j. 1 \<le> j \<and> j \<le> k \<and> pixI inp j \<noteq> None} \<union>
          (if pixI inp (Suc k) \<noteq> None then {Suc k} else {})"
    by (auto simp: le_Suc_eq)
  then show ?thesis
    unfolding retained_cols_def by (simp add: image_Un del: of_nat_Suc)
qed

lemma bodyI_None:
  assumes "pixI inp (Suc (ptr s)) = None"
  shows "itvLft (bodyI inp s) = itvLft s"
    and "\<not> 0 < itvLen s \<Longrightarrow> itvLen (bodyI inp s) = itvLen s \<and>
           errNum (bodyI inp s) = errNum s \<and> pool (bodyI inp s) = pool s"
    and "0 < itvLen s \<Longrightarrow> itvLen (bodyI inp s) = 0 \<and>
           (errNum (bodyI inp s), pool (bodyI inp s)) =
              WlzDynItvAdd (pool s) (vtY (dstPos inp) + vtY (orgPos inp))
                 (itvLft s + vtX (orgPos inp)) (itvLen s)"
  using assms by (simp_all add: bodyI_def Let_def pixI_step split: prod.splits)

lemma bodyI_Some:
  assumes "pixI inp (Suc (ptr s)) = Some c" "0 \<le> itvLen s"
  shows "itvLft (bodyI inp s) = (if itvLen s = 0 then posX s else itvLft s)"
    and "cnt s \<noteq> 0 \<Longrightarrow>
           itvLen (bodyI inp s) = itvLen s + 1 \<and>
           errNum (bodyI inp s) = errNum s \<and> pool (bodyI inp s) = pool s"
    and "cnt s = 0 \<Longrightarrow>
           itvLen (bodyI inp s) = 0 \<and>
           (errNum (bodyI inp s), pool (bodyI inp s)) =
              WlzDynItvAdd (pool s) (vtY (dstPos inp) + vtY (orgPos inp))
                 ((if itvLen s = 0 then posX s else itvLft s) + vtX (orgPos inp))
                 (itvLen s + 1)"
  using assms by (auto simp add: bodyI_def Let_def pixI_step split: prod.splits)

lemma invI_runI:
  assumes "0 \<le> itvLen t" "itvLen t \<le> int (ptr t)"
    "0 < itvLen t \<longrightarrow> itvLft t + itvLen t = posX t"
    "cnt t \<le> 0 \<longrightarrow> itvLen t = 0"
    "itvs (pool t) = itvs p0 @ new"
    "\<forall>(y, l, len) \<in> set new.
            y = vtY (dstPos inp) + vtY (orgPos inp) \<and> 1 \<le> len \<and>
            vtX (dstPos inp) + 1 + vtX (orgPos inp) \<le> l \<and> l + len \<le> posX t + vtX (orgPos inp)"
    "errNum t = WLZ_ERR_NONE \<longrightarrow>
           covered new \<union> {itvLft t + vtX (orgPos inp) ..< itvLft t + vtX (orgPos inp) + itvLen t}
             = retained_cols inp (ptr t)"
  shows "invI_run p0 inp t"
  unfolding invI_run_def using assms by blast

lemma invI_run_step:
  assumes c: "invI_cnt n inp s" and r: "invI_run p0 inp s"
    and e: "errNum s = WLZ_ERR_NONE" and pos: "0 < cnt s"
  shows "invI_run p0 inp (bodyI inp (s\<lparr>cnt := cnt s - 1\<rparr>))"
proof -
  let ?s = "s\<lparr>cnt := cnt s - 1\<rparr>"
  let ?t = "bodyI inp ?s"
  let ?ox = "vtX (orgPos inp)"
  let ?y = "vtY (dstPos inp) + vtY (orgPos inp)"
  from r obtain new where new: "itvs (pool s) = itvs p0 @ new"
    and bnd: "\<forall>(y, l, len) \<in> set new.
            y = ?y \<and> 1 \<le> len \<and>
            vtX (dstPos inp) + 1 + ?ox \<le> l \<and> l + len \<le> posX s + ?ox"
    and cov: "covered new \<union> {itvLft s + ?ox ..< itvLft s + ?ox + itvLen s}
             = retained_cols inp (ptr s)"
    and len0: "0 \<le> itvLen s" and lenk: "itvLen s \<le> int (ptr s)"
    and lft: "0 < itvLen s \<longrightarrow> itvLft s + itvLen s = posX s"
    using e unfolding invI_run_def by blast
  from c have px: "posX s = vtX (dstPos inp) + 1 + int (ptr s)"
    by (simp add: invI_cnt_def)
  have pt: "posX ?t = posX s + 1" "ptr ?t = Suc (ptr s)" "cnt ?t = cnt s - 1"
    by simp_all
  have bnd': "\<forall>(y, l, len) \<in> set new.
            y = ?y \<and> 1 \<le> len \<and>
            vtX (dstPos inp) + 1 + ?ox \<le> l \<and> l + len \<le> posX ?t + ?ox"
    using bnd by auto
  show ?thesis
  proof (cases "pixI inp (Suc (ptr s))")
    case None
    then have N: "pixI inp (Suc (ptr ?s)) = None" by simp
    have rc: "retained_cols inp (ptr ?t) = retained_cols inp (ptr s)"
      using None by (simp add: retained_cols_Suc)
    show ?thesis
    proof (cases "0 < itvLen s")
      case False
      with bodyI_None(1,2) [OF N] len0 have
        f: "itvLen ?t = 0" "itvLen s = 0" "itvLft ?t = itvLft s" "errNum ?t = errNum s" "pool ?t = pool s"
        by simp_all
      show ?thesis
      proof (rule invI_runI [where new = new])
        show "itvs (pool ?t) = itvs p0 @ new" using f new by simp
        show "errNum ?t = WLZ_ERR_NONE \<longrightarrow>
           covered new \<union> {itvLft ?t + ?ox ..< itvLft ?t + ?ox + itvLen ?t} = retained_cols inp (ptr ?t)"
          using cov f(1,2,3) rc by simp
      qed (use f bnd' in simp_all)
    next
      case True
      with bodyI_None(1,3) [OF N] have
        f: "itvLen ?t = 0" "itvLft ?t = itvLft s"
           "(errNum ?t, pool ?t) = WlzDynItvAdd (pool s) ?y (itvLft s + ?ox) (itvLen s)"
        by simp_all
      show ?thesis
      proof (cases "avail (pool s) = 0")
        case True
        with f have g: "errNum ?t = WLZ_ERR_MEM_ALLOC" "pool ?t = pool s"
          by (simp_all add: WlzDynItvAdd_def)
        show ?thesis
        proof (rule invI_runI [where new = new])
          show "itvs (pool ?t) = itvs p0 @ new" using g new by simp
        qed (use f g bnd' in simp_all)
      next
        case False
        let ?r = "(?y, itvLft s + ?ox, itvLen s)"
        from False f have p: "errNum ?t = WLZ_ERR_NONE"
          "itvs (pool ?t) = itvs p0 @ (new @ [?r])"
          by (simp_all add: WlzDynItvAdd_def new)
        have b2: "\<forall>(y, l, len) \<in> set (new @ [?r]).
            y = ?y \<and> 1 \<le> len \<and>
            vtX (dstPos inp) + 1 + ?ox \<le> l \<and> l + len \<le> posX ?t + ?ox"
          using bnd' True lft lenk px by auto
        have c2: "covered (new @ [?r])
                  \<union> {itvLft ?t + ?ox ..< itvLft ?t + ?ox + itvLen ?t} = retained_cols inp (ptr ?t)"
          using cov rc f(1,2) by (simp add: add.assoc)
        show ?thesis
        proof (rule invI_runI [where new = "new @ [?r]"])
          show "itvs (pool ?t) = itvs p0 @ (new @ [?r])" by (rule p(2))
          show "\<forall>(y, l, len) \<in> set (new @ [?r]).
            y = ?y \<and> 1 \<le> len \<and>
            vtX (dstPos inp) + 1 + ?ox \<le> l \<and> l + len \<le> posX ?t + ?ox" by (rule b2)
          show "errNum ?t = WLZ_ERR_NONE \<longrightarrow> covered (new @ [?r])
                  \<union> {itvLft ?t + ?ox ..< itvLft ?t + ?ox + itvLen ?t} = retained_cols inp (ptr ?t)"
            using c2 by blast
        qed (use f(1) in simp_all)
      qed
    qed
  next
    case (Some d)
    then have S: "pixI inp (Suc (ptr ?s)) = Some d" by simp
    have len0': "0 \<le> itvLen ?s" using len0 by simp
    have rc: "retained_cols inp (ptr ?t) =
                retained_cols inp (ptr s) \<union> {posX s + ?ox}"
      using Some px by (simp add: retained_cols_Suc add_ac)
    let ?l1 = "if itvLen s = 0 then posX s else itvLft s"
    have open1: "{itvLft s + ?ox ..< itvLft s + ?ox + itvLen s} \<union> {posX s + ?ox}
                  = {?l1 + ?ox ..< ?l1 + ?ox + (itvLen s + 1)}"
      using len0 lft by auto
    have l1: "itvLft ?t = ?l1"
      using bodyI_Some(1) [OF S len0'] by simp
    have l1b: "vtX (dstPos inp) + 1 + ?ox \<le> ?l1 + ?ox" "?l1 + (itvLen s + 1) = posX ?t"
      using len0 lft lenk px by auto
    show ?thesis
    proof (cases "cnt s - 1 = 0")
      case False
      with bodyI_Some(2) [OF S len0'] have
        f: "itvLen ?t = itvLen s + 1" "errNum ?t = errNum s" "pool ?t = pool s"
        by simp_all
      have c2: "covered new \<union> {itvLft ?t + ?ox ..< itvLft ?t + ?ox + itvLen ?t}
                  = retained_cols inp (ptr ?t)"
        unfolding l1 f(1) rc open1 [symmetric] cov [symmetric] by (simp add: Un_assoc)
      show ?thesis
      proof (rule invI_runI [where new = new])
        show "itvs (pool ?t) = itvs p0 @ new" using f new by simp
        show "errNum ?t = WLZ_ERR_NONE \<longrightarrow>
           covered new \<union> {itvLft ?t + ?ox ..< itvLft ?t + ?ox + itvLen ?t} = retained_cols inp (ptr ?t)"
          using c2 by blast
        show "0 < itvLen ?t \<longrightarrow> itvLft ?t + itvLen ?t = posX ?t"
          unfolding l1 f(1) using l1b(2) by blast
        show "cnt ?t \<le> 0 \<longrightarrow> itvLen ?t = 0" using False pos by simp
        show "\<forall>(y, l, len) \<in> set new.
            y = ?y \<and> 1 \<le> len \<and>
            vtX (dstPos inp) + 1 + ?ox \<le> l \<and> l + len \<le> posX ?t + ?ox" by (rule bnd')
      qed (use f(1) len0 lenk in simp_all)
    next
      case True
      with bodyI_Some(3) [OF S len0'] have
        f: "itvLen ?t = 0"
           "(errNum ?t, pool ?t) = WlzDynItvAdd (pool s) ?y (?l1 + ?ox) (itvLen s + 1)"
        by simp_all
      show ?thesis
      proof (cases "avail (pool s) = 0")
        case True
        with f have g: "errNum ?t = WLZ_ERR_MEM_ALLOC" "pool ?t = pool s"
          by (simp_all add: WlzDynItvAdd_def)
        show ?thesis
        proof (rule invI_runI [where new = new])
          show "itvs (pool ?t) = itvs p0 @ new" using g new by simp
          show "\<forall>(y, l, len) \<in> set new.
            y = ?y \<and> 1 \<le> len \<and>
            vtX (dstPos inp) + 1 + ?ox \<le> l \<and> l + len \<le> posX ?t + ?ox" by (rule bnd')
        qed (use f(1) g in simp_all)
      next
        case False
        let ?r = "(?y, ?l1 + ?ox, itvLen s + 1)"
        from False f have p: "errNum ?t = WLZ_ERR_NONE"
          "itvs (pool ?t) = itvs p0 @ (new @ [?r])"
          by (simp_all add: WlzDynItvAdd_def new)
        have b2: "\<forall>(y, l, len) \<in> set (new @ [?r]).
            y = ?y \<and> 1 \<le> len \<and>
            vtX (dstPos inp) + 1 + ?ox \<le> l \<and> l + len \<le> posX ?t + ?ox"
          using bnd' len0 l1b by auto
        have c2: "covered (new @ [?r])
                  \<union> {itvLft ?t + ?ox ..< itvLft ?t + ?ox + itvLen ?t} = retained_cols inp (ptr ?t)"
        proof -
          have "covered (new @ [?r]) \<union> {itvLft ?t + ?ox ..< itvLft ?t + ?ox + itvLen ?t}
                = covered new \<union> {?l1 + ?ox ..< ?l1 + ?ox + (itvLen s + 1)}"
            by (simp add: f(1))
          also have "\<dots> = covered new \<union> ({itvLft s + ?ox ..< itvLft s + ?ox + itvLen s} \<union> {posX s + ?ox})"
            by (simp only: open1)
          also have "\<dots> = retained_cols inp (ptr s) \<union> {posX s + ?ox}"
            by (simp only: Un_assoc [symmetric] cov)
          finally show ?thesis by (simp only: rc)
        qed
        show ?thesis
        proof (rule invI_runI [where new = "new @ [?r]"])
          show "itvs (pool ?t) = itvs p0 @ (new @ [?r])" by (rule p(2))
          show "\<forall>(y, l, len) \<in> set (new @ [?r]).
            y = ?y \<and> 1 \<le> len \<and>
            vtX (dstPos inp) + 1 + ?ox \<le> l \<and> l + len \<le> posX ?t + ?ox" by (rule b2)
          show "errNum ?t = WLZ_ERR_NONE \<longrightarrow> covered (new @ [?r])
                  \<union> {itvLft ?t + ?ox ..< itvLft ?t + ?ox + itvLen ?t} = retained_cols inp (ptr ?t)"
            using c2 by blast
        qed (use f(1) in simp_all)
      qed
    qed
  qed
qed

lemma invI_step:
  assumes "invI n buf0 p0 inp s" "errNum s = WLZ_ERR_NONE" "0 < cnt s" "nat n \<le> length buf0"
  shows "invI n buf0 p0 inp (bodyI inp (s\<lparr>cnt := cnt s - 1\<rparr>))"
proof -
  from assms(1) have c: "invI_cnt n inp s" and b: "invI_buf buf0 inp s" and r: "invI_run p0 inp s"
    by (simp_all add: invI_def)
  from c assms(3,4) have "ptr s + 1 < length buf0"
    by (simp add: invI_cnt_def) linarith
  with invI_cnt_step [OF c assms(3)] invI_buf_step [OF b] invI_run_step [OF c r assms(2,3)]
  show ?thesis by (simp add: invI_def)
qed

lemma invI_init:
  "invI n ((buf[0 := 0])[nat (n - 1) := 0]) dst (scan_inputs grdMBuf gYBuf gXBuf dPos oPos minG)
      (scan_init dst buf n dPos)"
  by (simp add: invI_def invI_cnt_def invI_buf_def invI_run_def scan_init_def scan_inputs_def
      retained_cols_def)

lemma loopI_final:
  assumes "nat n \<le> length buf"
    and "inp = scan_inputs grdMBuf gYBuf gXBuf dPos oPos minG"
    and "t = loopI inp (scan_init dst buf n dPos)"
  shows "invI n ((buf[0 := 0])[nat (n - 1) := 0]) dst inp t \<and>
         (errNum t \<noteq> WLZ_ERR_NONE \<or> cnt t \<le> 0)"
  unfolding assms(3)
proof (rule loopI_inv [where P = "invI n ((buf[0 := 0])[nat (n - 1) := 0]) dst inp"])
  show "invI n ((buf[0 := 0])[nat (n - 1) := 0]) dst inp (scan_init dst buf n dPos)"
    unfolding assms(2) by (rule invI_init)
next
  fix s
  assume "invI n ((buf[0 := 0])[nat (n - 1) := 0]) dst inp s"
    "errNum s = WLZ_ERR_NONE" "0 < cnt s"
  then show "invI n ((buf[0 := 0])[nat (n - 1) := 0]) dst inp (bodyI inp (s\<lparr>cnt := cnt s - 1\<rparr>))"
    using assms(1) by (intro invI_step) simp_all
qed

section \<open>The loop of the floating scanner\<close>

lemma ptr_bodyD [simp]: "ptr (bodyD eps inp s) = ptr s + 1"
  by (simp add: bodyD_def Let_def split: option.splits prod.splits)

lemma cnt_bodyD [simp]: "cnt (bodyD eps inp s) = cnt s"
  by (simp add: bodyD_def Let_def split: option.splits prod.splits)

lemma dstBuf_bodyD:
  "dstBuf (bodyD eps inp s) = (dstBuf s)[ptr s + 1 := byte_of (pixD eps inp (ptr s + 1))]"
  by (simp add: bodyD_def Let_def byte_of_def pixD_def split: option.splits prod.splits)

lemma bodyD_no_run:
  assumes "itvLen s = 0"
  shows "itvLen (bodyD eps inp s) = 0" "errNum (bodyD eps inp s) = errNum s"
    "pool (bodyD eps inp s) = pool s"
  using assms by (simp_all add: bodyD_def Let_def split: option.splits prod.splits)

lemma loopD_unfold_run:
  "errNum s = WLZ_ERR_NONE \<Longrightarrow> 0 < cnt s \<Longrightarrow>
   loopD eps inp s = loopD eps inp (bodyD eps inp (s\<lparr>cnt := cnt s - 1\<rparr>))"
  by (subst loopD.simps) simp

lemma loopD_unfold_stop:
  "\<not> (errNum s = WLZ_ERR_NONE \<and> 0 < cnt s) \<Longrightarrow> loopD eps inp s = s"
  by (subst loopD.simps) auto

lemma loopD_inv:
  assumes "P s"
    and "\<And>s. P s \<Longrightarrow> errNum s = WLZ_ERR_NONE \<Longrightarrow> 0 < cnt s \<Longrightarrow>
               P (bodyD eps inp (s\<lparr>cnt := cnt s - 1\<rparr>))"
  shows "P (loopD eps inp s) \<and>
         (errNum (loopD eps inp s) \<noteq> WLZ_ERR_NONE \<or> cnt (loopD eps inp s) \<le> 0)"
  using assms
proof (induction eps inp s rule: loopD.induct)
  case (1 eps inp s)
  note step = "1.prems"(2)
  show ?case
  proof (cases "errNum s = WLZ_ERR_NONE \<and> 0 < cnt s")
    case True
    then have e: "errNum s = WLZ_ERR_NONE" and c: "0 < cnt s"
      by simp_all
    have eq: "loopD eps inp s = loopD eps inp (bodyD eps inp (s\<lparr>cnt := cnt s - 1\<rparr>))"
      by (rule loopD_unfold_run [OF e c])
    have "P (bodyD eps inp (s\<lparr>cnt := cnt s - 1\<rparr>))"
      by (rule step [OF "1.prems"(1) e c])
    from "1.IH" [OF True this step] show ?thesis
      apply (subst (1 2 3) eq)
      apply assumption
      done
  next
    case False
    have eq: "loopD eps inp s = s"
      by (rule loopD_unfold_stop [OF False])
    from False "1.prems"(1) show ?thesis
      apply (subst (1 2 3) eq)
      apply auto
      done
  qed
qed

lemma invD_step:
  assumes "invD n buf0 p0 eps inp s" "0 < cnt s" "nat n \<le> length buf0"
  shows "invD n buf0 p0 eps inp (bodyD eps inp (s\<lparr>cnt := cnt s - 1\<rparr>))"
proof -
  from assms have k: "ptr s + 1 < length buf0"
    by (simp add: invD_def) linarith
  have "itvLen (s\<lparr>cnt := cnt s - 1\<rparr>) = 0"
    using assms(1) by (simp add: invD_def)
  note nr = bodyD_no_run [OF this, of eps inp]
  show ?thesis
    using assms(1,2) k nr
    by (auto simp: invD_def dstBuf_bodyD nth_list_update le_Suc_eq)
qed

lemma invD_init:
  "invD n ((buf[0 := 0])[nat (n - 1) := 0]) dst eps inp (scan_init dst buf n dPos)"
  by (simp add: invD_def scan_init_def)

lemma loopD_final:
  assumes "nat n \<le> length buf"
    and "t = loopD eps inp (scan_init dst buf n dPos)"
  shows "invD n ((buf[0 := 0])[nat (n - 1) := 0]) dst eps inp t \<and> cnt t \<le> 0"
proof -
  have "invD n ((buf[0 := 0])[nat (n - 1) := 0]) dst eps inp t \<and>
        (errNum t \<noteq> WLZ_ERR_NONE \<or> cnt t \<le> 0)"
    unfolding assms(2)
  proof (rule loopD_inv [where P = "invD n ((buf[0 := 0])[nat (n - 1) := 0]) dst eps inp"])
    show "invD n ((buf[0 := 0])[nat (n - 1) := 0]) dst eps inp (scan_init dst buf n dPos)"
      by (rule invD_init)
  next
    fix s
    assume "invD n ((buf[0 := 0])[nat (n - 1) := 0]) dst eps inp s"
      "errNum s = WLZ_ERR_NONE" "0 < cnt s"
    then show "invD n ((buf[0 := 0])[nat (n - 1) := 0]) dst eps inp
                 (bodyD eps inp (s\<lparr>cnt := cnt s - 1\<rparr>))"
      using assms(1) by (intro invD_step) simp_all
  qed
  then show ?thesis by (auto simp: invD_def)
qed

section \<open>What the scanners return\<close>

lemma boundary_first: "0 < length buf \<Longrightarrow> (buf[0 := 0])[k := 0] ! 0 = (0::UBYTE)"
  by (cases "k = 0") simp_all

lemma BufI_result:
  assumes run: "WlzNMSuppress2DBufI dst grdMBuf gYBuf gXBuf buf n dPos oPos minG = (e, buf', dst')"
    and n: "1 \<le> n" "nat n \<le> length buf"
    and inp: "inp = scan_inputs grdMBuf gYBuf gXBuf dPos oPos minG"
  shows "length buf' = length buf"
    and "buf' ! 0 = 0"
    and "buf' ! nat (n - 1) = 0"
    and "e = WLZ_ERR_NONE \<Longrightarrow> 1 \<le> j \<Longrightarrow> int j \<le> n - 2 \<Longrightarrow> buf' ! j = byte_of (pixI inp j)"
    and "\<exists>new. itvs dst' = itvs dst @ new \<and>
           (\<forall>(y, l, len) \<in> set new.
               y = vtY dPos + vtY oPos \<and> 1 \<le> len \<and>
               vtX dPos + 1 + vtX oPos \<le> l \<and> l + len \<le> vtX dPos + n - 1 + vtX oPos) \<and>
           (e = WLZ_ERR_NONE \<longrightarrow> covered new = retained_cols inp (nat (n - 2)))"
proof -
  define t where "t = loopI inp (scan_init dst buf n dPos)"
  let ?b0 = "(buf[0 := 0])[nat (n - 1) := 0]"
  from run have res: "e = errNum t" "buf' = dstBuf t" "dst' = pool t"
    by (simp_all add: WlzNMSuppress2DBufI_def Let_def t_def inp)
  from loopI_final [OF n(2) inp t_def]
  have c: "invI_cnt n inp t" and b: "invI_buf ?b0 inp t" and r: "invI_run dst inp t"
    and ex: "errNum t \<noteq> WLZ_ERR_NONE \<or> cnt t \<le> 0"
    by (simp_all add: invI_def)
  have dp: "dstPos inp = dPos" "orgPos inp = oPos"
    by (simp_all add: inp scan_inputs_def)
  from c have k: "int (ptr t) + cnt t = n - 2" "ptr t = 0 \<or> 0 \<le> cnt t"
    and px: "posX t = vtX dPos + 1 + int (ptr t)"
    by (simp_all add: invI_cnt_def dp)
  show "length buf' = length buf"
    using b by (simp add: invI_buf_def res)
  have "buf' ! 0 = ?b0 ! 0"
    using b by (simp add: invI_buf_def res)
  also have "\<dots> = 0"
  proof -
    have "0 < length buf" using n by linarith
    then show ?thesis by (rule boundary_first)
  qed
  finally show "buf' ! 0 = 0" .
  have "nat (n - 1) = 0 \<or> ptr t < nat (n - 1)"
    using k n by linarith
  then have "buf' ! nat (n - 1) = ?b0 ! nat (n - 1)"
    using b unfolding invI_buf_def res by blast
  also have "\<dots> = 0"
    using n by simp
  finally show "buf' ! nat (n - 1) = 0" .
  show "buf' ! j = byte_of (pixI inp j)" if "e = WLZ_ERR_NONE" "1 \<le> j" "int j \<le> n - 2"
  proof -
    from that ex res have "cnt t \<le> 0" by simp
    with k that have "j \<le> ptr t" by linarith
    with b that show ?thesis by (simp add: invI_buf_def res)
  qed
  from r obtain new where new: "itvs (pool t) = itvs dst @ new"
    and bnd: "\<forall>(y, l, len) \<in> set new.
            y = vtY dPos + vtY oPos \<and> 1 \<le> len \<and>
            vtX dPos + 1 + vtX oPos \<le> l \<and> l + len \<le> posX t + vtX oPos"
    and cov: "errNum t = WLZ_ERR_NONE \<longrightarrow>
           covered new \<union> {itvLft t + vtX oPos ..< itvLft t + vtX oPos + itvLen t}
             = retained_cols inp (ptr t)"
    and l0: "cnt t \<le> 0 \<longrightarrow> itvLen t = 0"
    unfolding invI_run_def dp by blast
  have pb: "posX t \<le> vtX dPos + n - 1 \<or> ptr t = 0"
    using k px by linarith
  have bnd': "\<forall>(y, l, len) \<in> set new.
            y = vtY dPos + vtY oPos \<and> 1 \<le> len \<and>
            vtX dPos + 1 + vtX oPos \<le> l \<and> l + len \<le> vtX dPos + n - 1 + vtX oPos"
  proof (cases "ptr t = 0")
    case True
    with bnd px have "new = []" by (cases new) auto
    then show ?thesis by simp
  next
    case False
    with pb have "posX t \<le> vtX dPos + n - 1" by simp
    with bnd show ?thesis by fastforce
  qed
  have cov': "covered new = retained_cols inp (nat (n - 2))" if "e = WLZ_ERR_NONE"
  proof -
    from that ex res have c0: "cnt t \<le> 0" by simp
    with l0 have "itvLen t = 0" by simp
    with cov that res have 1: "covered new = retained_cols inp (ptr t)" by simp
    from c0 k have "ptr t = nat (n - 2)" by linarith
    with 1 show ?thesis by simp
  qed
  show "\<exists>new. itvs dst' = itvs dst @ new \<and>
           (\<forall>(y, l, len) \<in> set new.
               y = vtY dPos + vtY oPos \<and> 1 \<le> len \<and>
               vtX dPos + 1 + vtX oPos \<le> l \<and> l + len \<le> vtX dPos + n - 1 + vtX oPos) \<and>
           (e = WLZ_ERR_NONE \<longrightarrow> covered new = retained_cols inp (nat (n - 2)))"
    using new bnd' cov' res by blast
qed

lemma BufD_result:
  assumes run: "WlzNMSuppress2DBufD eps dst grdMBuf gYBuf gXBuf buf n dPos oPos minG = (e, buf', dst')"
    and n: "1 \<le> n" "nat n \<le> length buf"
    and inp: "inp = scan_inputs grdMBuf gYBuf gXBuf dPos oPos minG"
  shows "e = WLZ_ERR_NONE" and "dst' = dst"
    and "length buf' = length buf"
    and "buf' ! 0 = 0"
    and "buf' ! nat (n - 1) = 0"
    and "1 \<le> j \<Longrightarrow> int j \<le> n - 2 \<Longrightarrow> buf' ! j = byte_of (pixD eps inp j)"
proof -
  define t where "t = loopD eps inp (scan_init dst buf n dPos)"
  let ?b0 = "(buf[0 := 0])[nat (n - 1) := 0]"
  from run have res: "e = errNum t" "buf' = dstBuf t" "dst' = pool t"
    by (simp_all add: WlzNMSuppress2DBufD_def Let_def t_def inp)
  from loopD_final [OF n(2) t_def]
  have i: "invD n ?b0 dst eps inp t" and c0: "cnt t \<le> 0"
    by simp_all
  from i have k: "int (ptr t) + cnt t = n - 2" "ptr t = 0 \<or> 0 \<le> cnt t"
    and len: "length (dstBuf t) = length ?b0"
    and bts: "\<forall>j. 1 \<le> j \<and> j \<le> ptr t \<longrightarrow> dstBuf t ! j = byte_of (pixD eps inp j)"
    and un: "\<forall>i. i = 0 \<or> ptr t < i \<longrightarrow> dstBuf t ! i = ?b0 ! i"
    and ep: "errNum t = WLZ_ERR_NONE" "pool t = dst"
    unfolding invD_def by blast+
  show "e = WLZ_ERR_NONE" "dst' = dst" using ep res by simp_all
  show "length buf' = length buf" using len res by simp
  have "buf' ! 0 = ?b0 ! 0" using un res by simp
  also have "\<dots> = 0"
  proof -
    have "0 < length buf" using n by linarith
    then show ?thesis by (rule boundary_first)
  qed
  finally show "buf' ! 0 = 0" .
  have "nat (n - 1) = 0 \<or> ptr t < nat (n - 1)"
    using k n by linarith
  then have "buf' ! nat (n - 1) = ?b0 ! nat (n - 1)"
    using un unfolding res by blast
  also have "\<dots> = 0"
    using n by simp
  finally show "buf' ! nat (n - 1) = 0" .
  show "buf' ! j = byte_of (pixD eps inp j)" if "1 \<le> j" "int j \<le> n - 2"
  proof -
    from k that c0 have "j \<le> ptr t" by linarith
    with bts that show ?thesis by (simp add: res)
  qed
qed

section \<open>The runs of the integer scanner\<close>

text \<open>
  After a successful call of the integer scanner the appended runs are the maximal
  sequences of retained pixels of the row, each once and from left to right: the runs
  cover exactly the retained columns, consecutive runs are separated, and the column
  before a run and the column after it are not retained.
\<close>

lemma bodyI_transition:
  assumes "0 \<le> itvLen s"
  obtains
    (idle) "pixI inp (Suc (ptr s)) = None" "itvLen s = 0" "itvLen (bodyI inp s) = 0"
      "errNum (bodyI inp s) = errNum s" "pool (bodyI inp s) = pool s"
  | (close_fail) "pixI inp (Suc (ptr s)) = None" "0 < itvLen s" "itvLen (bodyI inp s) = 0"
      "errNum (bodyI inp s) = WLZ_ERR_MEM_ALLOC" "pool (bodyI inp s) = pool s"
  | (close) "pixI inp (Suc (ptr s)) = None" "0 < itvLen s" "itvLen (bodyI inp s) = 0"
      "errNum (bodyI inp s) = WLZ_ERR_NONE"
      "itvs (pool (bodyI inp s)) = itvs (pool s) @
         [(vtY (dstPos inp) + vtY (orgPos inp), itvLft s + vtX (orgPos inp), itvLen s)]"
  | (grow) c where "pixI inp (Suc (ptr s)) = Some c" "cnt s \<noteq> 0"
      "itvLen (bodyI inp s) = itvLen s + 1"
      "itvLft (bodyI inp s) = (if itvLen s = 0 then posX s else itvLft s)"
      "errNum (bodyI inp s) = errNum s" "pool (bodyI inp s) = pool s"
  | (last_fail) c where "pixI inp (Suc (ptr s)) = Some c" "cnt s = 0" "itvLen (bodyI inp s) = 0"
      "errNum (bodyI inp s) = WLZ_ERR_MEM_ALLOC" "pool (bodyI inp s) = pool s"
  | (last) c where "pixI inp (Suc (ptr s)) = Some c" "cnt s = 0" "itvLen (bodyI inp s) = 0"
      "errNum (bodyI inp s) = WLZ_ERR_NONE"
      "itvs (pool (bodyI inp s)) = itvs (pool s) @
         [(vtY (dstPos inp) + vtY (orgPos inp),
           (if itvLen s = 0 then posX s else itvLft s) + vtX (orgPos inp), itvLen s + 1)]"
proof (cases "pixI inp (Suc (ptr s))")
  case None
  note b = bodyI_None [OF None]
  show ?thesis
  proof (cases "0 < itvLen s")
    case False
    with assms b(2) None show ?thesis by (intro idle) simp_all
  next
    case True
    note a = b(3) [OF True]
    show ?thesis
    proof (cases "avail (pool s) = 0")
      case True
      with a None \<open>0 < itvLen s\<close> show ?thesis
        by (intro close_fail) (simp_all add: WlzDynItvAdd_def)
    next
      case False
      with a None \<open>0 < itvLen s\<close> show ?thesis
        by (intro close) (auto simp: WlzDynItvAdd_def)
    qed
  qed
next
  case (Some c)
  note b = bodyI_Some [OF Some assms]
  show ?thesis
  proof (cases "cnt s = 0")
    case False
    with b(1,2) Some show ?thesis by (intro grow [of c]) simp_all
  next
    case True
    note a = b(3) [OF True]
    show ?thesis
    proof (cases "avail (pool s) = 0")
      case True
      with a Some \<open>cnt s = 0\<close> show ?thesis
        by (intro last_fail [of c]) (simp_all add: WlzDynItvAdd_def)
    next
      case False
      with a Some \<open>cnt s = 0\<close> show ?thesis
        by (intro last [of c]) (auto simp: WlzDynItvAdd_def)
    qed
  qed
qed

lemma col_retained_iff:
  assumes "1 \<le> j" "int j \<le> n - 2"
  shows "vtX (dstPos inp) + vtX (orgPos inp) + int j \<in> row_retained inp n \<longleftrightarrow> pixI inp j \<noteq> None"
  using assms by (auto simp: row_retained_def retained_cols_def)

lemma col_not_retained:
  assumes "j = 0 \<or> n - 2 < int j"
  shows "vtX (dstPos inp) + vtX (orgPos inp) + int j \<notin> row_retained inp n"
  using assms by (auto simp: row_retained_def retained_cols_def)

lemma new_runs_same: "pool t = pool s \<Longrightarrow> new_runs p0 t = new_runs p0 s"
  by (simp add: new_runs_def)

lemma new_runs_snoc:
  assumes "itvs (pool s) = itvs p0 @ new" "itvs (pool t) = itvs (pool s) @ [r]"
  shows "new_runs p0 t = new_runs p0 s @ [r]" "new_runs p0 s = new"
  using assms by (simp_all add: new_runs_def)

lemma invI_maxI:
  assumes "\<forall>(y, l, len) \<in> set (new_runs p0 t).
         l - 1 \<notin> row_retained inp n \<and> l + len \<notin> row_retained inp n \<and>
         (0 < cnt t \<longrightarrow> l + len < posX t + vtX (orgPos inp))"
    "sorted_wrt run_before (new_runs p0 t)"
    "0 < itvLen t \<longrightarrow>
        itvLft t + vtX (orgPos inp) - 1 \<notin> row_retained inp n \<and>
        (\<forall>(y, l, len) \<in> set (new_runs p0 t). l + len < itvLft t + vtX (orgPos inp))"
    "itvLen t = 0 \<and> 0 < cnt t \<and> errNum t = WLZ_ERR_NONE \<longrightarrow>
        ptr t = 0 \<or> pixI inp (ptr t) = None"
  shows "invI_max n p0 inp t"
  unfolding invI_max_def using assms by blast

lemma invI_max_step:
  assumes c: "invI_cnt n inp s" and r: "invI_run p0 inp s" and m: "invI_max n p0 inp s"
    and e: "errNum s = WLZ_ERR_NONE" and pos: "0 < cnt s"
  shows "invI_max n p0 inp (bodyI inp (s\<lparr>cnt := cnt s - 1\<rparr>))"
proof -
  let ?s = "s\<lparr>cnt := cnt s - 1\<rparr>"
  let ?t = "bodyI inp ?s"
  let ?ox = "vtX (orgPos inp)"
  let ?R = "row_retained inp n"
  let ?col = "\<lambda>j. vtX (dstPos inp) + vtX (orgPos inp) + int j"
  let ?j = "Suc (ptr s)"
  let ?l1 = "if itvLen s = 0 then posX s else itvLft s"
  from c have k: "int (ptr s) + cnt s = n - 2"
    and px: "posX s = vtX (dstPos inp) + 1 + int (ptr s)"
    by (simp_all add: invI_cnt_def)
  from k pos have j: "1 \<le> ?j" "int ?j \<le> n - 2" by simp_all
  have pcol: "posX s + ?ox = ?col ?j" using px by simp
  from r obtain new where new: "itvs (pool s) = itvs p0 @ new"
    and len0: "0 \<le> itvLen s"
    and lft: "0 < itvLen s \<longrightarrow> itvLft s + itvLen s = posX s"
    unfolding invI_run_def by blast
  have nr: "new_runs p0 s = new" using new by (simp add: new_runs_def)
  from m have M: "(\<forall>(y, l, len) \<in> set new.
         l - 1 \<notin> ?R \<and> l + len \<notin> ?R \<and> (0 < cnt s \<longrightarrow> l + len < posX s + ?ox)) \<and>
     sorted_wrt run_before new \<and>
     (0 < itvLen s \<longrightarrow> itvLft s + ?ox - 1 \<notin> ?R \<and>
              (\<forall>(y, l, len) \<in> set new. l + len < itvLft s + ?ox)) \<and>
     (itvLen s = 0 \<and> 0 < cnt s \<and> errNum s = WLZ_ERR_NONE \<longrightarrow>
              ptr s = 0 \<or> pixI inp (ptr s) = None)"
    unfolding invI_max_def nr .
  note M1 = M [THEN conjunct1]
    and B = M [THEN conjunct2, THEN conjunct1]
    and C = M [THEN conjunct2, THEN conjunct2, THEN conjunct1]
    and M4 = M [THEN conjunct2, THEN conjunct2, THEN conjunct2]
  have A: "\<forall>(y, l, len) \<in> set new.
         l - 1 \<notin> ?R \<and> l + len \<notin> ?R \<and> l + len < posX s + ?ox"
    using M1 pos by (simp add: case_prod_beta)
  have D: "itvLen s = 0 \<longrightarrow> ptr s = 0 \<or> pixI inp (ptr s) = None"
    using M4 pos e by simp
  have pt: "posX ?t = posX s + 1" "ptr ?t = ?j" "cnt ?t = cnt s - 1"
    by simp_all
  have len0': "0 \<le> itvLen ?s" using len0 by simp
  have A': "\<forall>(y, l, len) \<in> set new.
         l - 1 \<notin> ?R \<and> l + len \<notin> ?R \<and> (0 < cnt ?t \<longrightarrow> l + len < posX ?t + ?ox)"
  proof
    fix x assume "x \<in> set new"
    with A have "case x of (y, l, len) \<Rightarrow>
         l - 1 \<notin> ?R \<and> l + len \<notin> ?R \<and> l + len < posX s + ?ox" by blast
    then show "case x of (y, l, len) \<Rightarrow>
         l - 1 \<notin> ?R \<and> l + len \<notin> ?R \<and> (0 < cnt ?t \<longrightarrow> l + len < posX ?t + ?ox)"
      unfolding pt by (cases x) auto
  qed
  \<comment> \<open>the column before a run that starts or continues at pixel \<open>j\<close> is not retained\<close>
  have before: "?l1 + ?ox - 1 \<notin> ?R"
  proof (cases "itvLen s = 0")
    case True
    have eq: "posX s + ?ox - 1 = ?col (ptr s)" using px by simp
    have "?col (ptr s) \<notin> ?R"
    proof (cases "ptr s = 0")
      case True
      then have "ptr s = 0 \<or> n - 2 < int (ptr s)" by simp
      then show ?thesis by (rule col_not_retained)
    next
      case False
      with D \<open>itvLen s = 0\<close> have "pixI inp (ptr s) = None" by simp
      moreover have "1 \<le> ptr s" "int (ptr s) \<le> n - 2" using False j by simp_all
      ultimately show ?thesis using col_retained_iff [of "ptr s" n inp] by simp
    qed
    then have "posX s + ?ox - 1 \<notin> ?R" unfolding eq .
    then show ?thesis unfolding if_P [OF True] .
  next
    case False
    with len0 C have "itvLft s + ?ox - 1 \<notin> ?R" by simp
    then show ?thesis unfolding if_not_P [OF False] .
  qed
  have older: "\<forall>(y, l, len) \<in> set new. l + len < ?l1 + ?ox"
  proof (cases "itvLen s = 0")
    case True
    show ?thesis
    proof
      fix x assume "x \<in> set new"
      with A have "case x of (y, l, len) \<Rightarrow>
         l - 1 \<notin> ?R \<and> l + len \<notin> ?R \<and> l + len < posX s + ?ox" by blast
      then show "case x of (y, l, len) \<Rightarrow> l + len < ?l1 + ?ox"
        using True by (cases x) auto
    qed
  next
    case False
    with len0 C show ?thesis by simp
  qed
  have l1end: "?l1 + itvLen s = posX s"
    using len0 lft by (cases "itvLen s = 0") simp_all
  from len0' show ?thesis
  proof (cases rule: bodyI_transition [where inp = inp and s = "s\<lparr>cnt := cnt s - 1\<rparr>",
        consumes 1, case_names idle close_fail close grow last_fail last])
    case idle
    then have "pool ?t = pool s" by simp
    then have n': "new_runs p0 ?t = new" using nr by (simp add: new_runs_def)
    show ?thesis
    proof (rule invI_maxI)
      show "itvLen ?t = 0 \<and> 0 < cnt ?t \<and> errNum ?t = WLZ_ERR_NONE \<longrightarrow>
              ptr ?t = 0 \<or> pixI inp (ptr ?t) = None"
        using idle(1) by simp
    qed (use idle(3) A' B in \<open>simp_all only: n' less_irrefl simp_thms\<close>)
  next
    case close_fail
    then have "pool ?t = pool s" by simp
    then have n': "new_runs p0 ?t = new" using nr by (simp add: new_runs_def)
    show ?thesis
    proof (rule invI_maxI)
      show "itvLen ?t = 0 \<and> 0 < cnt ?t \<and> errNum ?t = WLZ_ERR_NONE \<longrightarrow>
              ptr ?t = 0 \<or> pixI inp (ptr ?t) = None"
        using close_fail(1) by simp
    qed (use close_fail(3) A' B in \<open>simp_all only: n' less_irrefl simp_thms\<close>)
  next
    case close
    let ?r = "(vtY (dstPos inp) + vtY (orgPos inp), itvLft s + ?ox, itvLen s)"
    from close(2) have op: "0 < itvLen s" by simp
    from close(5) new have n': "new_runs p0 ?t = new @ [?r]"
      by (simp add: new_runs_def)
    from close(1) have "pixI inp ?j = None" by simp
    then have nc: "?col ?j \<notin> ?R" using col_retained_iff [OF j, of inp] by simp
    have eq: "itvLft s + ?ox + itvLen s = ?col ?j" using op lft pcol by simp
    from nc have endr: "itvLft s + ?ox + itvLen s \<notin> ?R" unfolding eq .
    have endp: "itvLft s + ?ox + itvLen s < posX ?t + ?ox" using op lft by simp
    show ?thesis
    proof (rule invI_maxI)
      show "\<forall>(y, l, len) \<in> set (new_runs p0 ?t).
         l - 1 \<notin> ?R \<and> l + len \<notin> ?R \<and> (0 < cnt ?t \<longrightarrow> l + len < posX ?t + ?ox)"
        unfolding n' using A' C op endr endp by simp
      show "sorted_wrt run_before (new_runs p0 ?t)"
        unfolding n' using B C op by (auto simp: sorted_wrt_append run_before_def)
      show "0 < itvLen ?t \<longrightarrow> itvLft ?t + ?ox - 1 \<notin> ?R \<and>
              (\<forall>(y, l, len) \<in> set (new_runs p0 ?t). l + len < itvLft ?t + ?ox)"
        using close(3) by simp
      show "itvLen ?t = 0 \<and> 0 < cnt ?t \<and> errNum ?t = WLZ_ERR_NONE \<longrightarrow>
              ptr ?t = 0 \<or> pixI inp (ptr ?t) = None"
        using close(1) by simp
    qed
  next
    case (grow d)
    then have "pool ?t = pool s" by simp
    then have n': "new_runs p0 ?t = new" using nr by (simp add: new_runs_def)
    from grow(4) have l1: "itvLft ?t = ?l1" by simp
    from grow(3) len0 have gt: "0 < itvLen ?t" "itvLen ?t \<noteq> 0" by simp_all
    show ?thesis
    proof (rule invI_maxI)
      show "\<forall>(y, l, len) \<in> set (new_runs p0 ?t).
         l - 1 \<notin> ?R \<and> l + len \<notin> ?R \<and> (0 < cnt ?t \<longrightarrow> l + len < posX ?t + ?ox)"
        unfolding n' by (rule A')
      show "sorted_wrt run_before (new_runs p0 ?t)"
        unfolding n' by (rule B)
      show "0 < itvLen ?t \<longrightarrow> itvLft ?t + ?ox - 1 \<notin> ?R \<and>
              (\<forall>(y, l, len) \<in> set (new_runs p0 ?t). l + len < itvLft ?t + ?ox)"
        unfolding n' l1 using before older by blast
      show "itvLen ?t = 0 \<and> 0 < cnt ?t \<and> errNum ?t = WLZ_ERR_NONE \<longrightarrow>
              ptr ?t = 0 \<or> pixI inp (ptr ?t) = None"
        using gt(2) by blast
    qed
  next
    case (last_fail d)
    then have "pool ?t = pool s" by simp
    then have n': "new_runs p0 ?t = new" using nr by (simp add: new_runs_def)
    from last_fail(2) have c0: "\<not> 0 < cnt ?t" by simp
    show ?thesis
    proof (rule invI_maxI)
      show "itvLen ?t = 0 \<and> 0 < cnt ?t \<and> errNum ?t = WLZ_ERR_NONE \<longrightarrow>
              ptr ?t = 0 \<or> pixI inp (ptr ?t) = None"
        using c0 by blast
    qed (use last_fail(3) A' B in \<open>simp_all only: n' less_irrefl simp_thms\<close>)
  next
    case (last d)
    let ?r = "(vtY (dstPos inp) + vtY (orgPos inp), ?l1 + ?ox, itvLen s + 1)"
    from last(2) have c0: "\<not> 0 < cnt ?t" "cnt s - 1 = 0" by simp_all
    from last(5) new have n': "new_runs p0 ?t = new @ [?r]"
      by (simp add: new_runs_def)
    from c0(2) k have "n - 2 < int (Suc ?j)" by simp
    then have "Suc ?j = 0 \<or> n - 2 < int (Suc ?j)" by blast
    then have nc: "?col (Suc ?j) \<notin> ?R" by (rule col_not_retained)
    have eq: "?l1 + ?ox + (itvLen s + 1) = ?col (Suc ?j)"
      using l1end pcol by simp
    from nc have endr: "?l1 + ?ox + (itvLen s + 1) \<notin> ?R" unfolding eq .
    show ?thesis
    proof (rule invI_maxI)
      show "\<forall>(y, l, len) \<in> set (new_runs p0 ?t).
         l - 1 \<notin> ?R \<and> l + len \<notin> ?R \<and> (0 < cnt ?t \<longrightarrow> l + len < posX ?t + ?ox)"
        unfolding n' using A' before endr c0(1) by simp
      show "sorted_wrt run_before (new_runs p0 ?t)"
        unfolding n' using B older by (auto simp: sorted_wrt_append run_before_def)
      show "0 < itvLen ?t \<longrightarrow> itvLft ?t + ?ox - 1 \<notin> ?R \<and>
              (\<forall>(y, l, len) \<in> set (new_runs p0 ?t). l + len < itvLft ?t + ?ox)"
        using last(3) by simp
      show "itvLen ?t = 0 \<and> 0 < cnt ?t \<and> errNum ?t = WLZ_ERR_NONE \<longrightarrow>
              ptr ?t = 0 \<or> pixI inp (ptr ?t) = None"
        using c0(1) by blast
    qed
  qed
qed

lemma invI_max_init: "invI_max n dst inp (scan_init dst buf n dPos)"
  by (simp add: invI_max_def new_runs_def scan_init_def)

lemma integer_scanner_runs_are_maximal:
  assumes run: "WlzNMSuppress2DBufI dst grdMBuf gYBuf gXBuf buf n dPos oPos minG =
                  (WLZ_ERR_NONE, buf', dst')"
    and n: "1 \<le> n" "nat n \<le> length buf"
    and inp: "inp = scan_inputs grdMBuf gYBuf gXBuf dPos oPos minG"
  shows "\<exists>new. itvs dst' = itvs dst @ new \<and> sorted_wrt run_before new \<and>
           covered new = row_retained inp n \<and>
           (\<forall>(y, l, len) \<in> set new.
               y = vtY dPos + vtY oPos \<and> 1 \<le> len \<and>
               l - 1 \<notin> row_retained inp n \<and> l + len \<notin> row_retained inp n)"
proof -
  define t where "t = loopI inp (scan_init dst buf n dPos)"
  let ?b0 = "(buf[0 := 0])[nat (n - 1) := 0]"
  let ?P = "\<lambda>s. invI n ?b0 dst inp s \<and> invI_max n dst inp s"
  from run have res: "errNum t = WLZ_ERR_NONE" "dst' = pool t"
    by (simp_all add: WlzNMSuppress2DBufI_def Let_def t_def inp)
  have "?P t \<and> (errNum t \<noteq> WLZ_ERR_NONE \<or> cnt t \<le> 0)"
    unfolding t_def
  proof (rule loopI_inv [where P = ?P])
    show "?P (scan_init dst buf n dPos)"
      using invI_init [of n buf dst grdMBuf gYBuf gXBuf dPos oPos minG] invI_max_init
      by (simp add: inp)
  next
    fix s
    assume a: "?P s" "errNum s = WLZ_ERR_NONE" "0 < cnt s"
    then have i: "invI n ?b0 dst inp s" and m: "invI_max n dst inp s" by simp_all
    from i have c: "invI_cnt n inp s" and r: "invI_run dst inp s" by (simp_all add: invI_def)
    have "invI n ?b0 dst inp (bodyI inp (s\<lparr>cnt := cnt s - 1\<rparr>))"
      using i a(2,3) n(2) by (intro invI_step) simp_all
    moreover have "invI_max n dst inp (bodyI inp (s\<lparr>cnt := cnt s - 1\<rparr>))"
      by (rule invI_max_step [OF c r m a(2,3)])
    ultimately show "?P (bodyI inp (s\<lparr>cnt := cnt s - 1\<rparr>))" by simp
  qed
  with res have c: "invI_cnt n inp t" and r: "invI_run dst inp t" and m: "invI_max n dst inp t"
    and c0: "cnt t \<le> 0"
    by (simp_all add: invI_def)
  have dp: "dstPos inp = dPos" "orgPos inp = oPos"
    by (simp_all add: inp scan_inputs_def)
  from c have k: "int (ptr t) + cnt t = n - 2" "ptr t = 0 \<or> 0 \<le> cnt t"
    by (simp_all add: invI_cnt_def)
  from r res(1) c0 obtain new where new: "itvs (pool t) = itvs dst @ new"
    and bnd: "\<forall>(y, l, len) \<in> set new. y = vtY dPos + vtY oPos \<and> 1 \<le> len"
    and cov: "covered new \<union> {itvLft t + vtX oPos ..< itvLft t + vtX oPos + itvLen t}
             = retained_cols inp (ptr t)"
    and l0: "itvLen t = 0"
    unfolding invI_run_def dp by fastforce
  from c0 k have "ptr t = nat (n - 2)" by linarith
  with cov l0 have cov': "covered new = row_retained inp n"
    by (simp add: row_retained_def)
  have nr: "new_runs dst t = new" using new by (simp add: new_runs_def)
  from m have M: "(\<forall>(y, l, len) \<in> set new.
         l - 1 \<notin> row_retained inp n \<and> l + len \<notin> row_retained inp n \<and>
         (0 < cnt t \<longrightarrow> l + len < posX t + vtX (orgPos inp))) \<and>
     sorted_wrt run_before new"
    unfolding invI_max_def nr by (elim conjE) (intro conjI, assumption+)
  have all: "\<forall>(y, l, len) \<in> set new.
               y = vtY dPos + vtY oPos \<and> 1 \<le> len \<and>
               l - 1 \<notin> row_retained inp n \<and> l + len \<notin> row_retained inp n"
  proof
    fix x assume x: "x \<in> set new"
    with bnd have "case x of (y, l, len) \<Rightarrow> y = vtY dPos + vtY oPos \<and> 1 \<le> len" by blast
    moreover from x M have "case x of (y, l, len) \<Rightarrow>
         l - 1 \<notin> row_retained inp n \<and> l + len \<notin> row_retained inp n \<and>
         (0 < cnt t \<longrightarrow> l + len < posX t + vtX (orgPos inp))" by blast
    ultimately show "case x of (y, l, len) \<Rightarrow>
               y = vtY dPos + vtY oPos \<and> 1 \<le> len \<and>
               l - 1 \<notin> row_retained inp n \<and> l + len \<notin> row_retained inp n"
      by (cases x) auto
  qed
  from new M cov' all res(2) show ?thesis by blast
qed

section \<open>Direction bytes\<close>

lemma flag_nonzero: "c OR 0x80 \<noteq> (0::UBYTE)"
  by (simp add: or_eq_0_iff)

lemma dIndexI_arith:
  "dIndexI gY gX = of_bool (0 \<le>s gY) * 4 + of_bool (0 \<le>s gX) * 2 + of_bool (gX * gX \<le>s gY * gY)"
  by (simp add: dIndexI_def)

lemma dIndexD_arith:
  "dIndexD gY gX = of_bool (gY \<ge> 0) * 4 + of_bool (gX \<ge> 0) * 2 + of_bool (gY * gY \<ge> gX * gX)"
  by (simp add: dIndexD_def)

lemma dTable_code:
  assumes "b = of_bool x * 4 + of_bool y * 2 + (of_bool z :: nat)"
  shows "dTable ! b \<le> 7" "128 \<le> dTable ! b OR 0x80" "dTable ! b OR 0x80 \<le> 135"
  using assms by (cases x; cases y; cases z; simp add: dTable_def)+

lemma short_rowI:
  assumes "dstLen \<le> 2"
  shows "WlzNMSuppress2DBufI dst grdMBuf gYBuf gXBuf buf dstLen dPos oPos minG =
          (WLZ_ERR_NONE, (buf[0 := 0])[nat (dstLen - 1) := 0], dst)"
proof -
  have "loopI (scan_inputs grdMBuf gYBuf gXBuf dPos oPos minG) (scan_init dst buf dstLen dPos)
          = scan_init dst buf dstLen dPos"
    by (rule loopI_unfold_stop) (use assms in \<open>simp add: scan_init_def\<close>)
  then show ?thesis
    by (simp add: WlzNMSuppress2DBufI_def scan_init_def)
qed

lemma short_rowD:
  assumes "dstLen \<le> 2"
  shows "WlzNMSuppress2DBufD eps dst grdMBuf gYBuf gXBuf buf dstLen dPos oPos minG =
          (WLZ_ERR_NONE, (buf[0 := 0])[nat (dstLen - 1) := 0], dst)"
proof -
  have "loopD eps (scan_inputs grdMBuf gYBuf gXBuf dPos oPos minG) (scan_init dst buf dstLen dPos)
          = scan_init dst buf dstLen dPos"
    by (rule loopD_unfold_stop) (use assms in \<open>simp add: scan_init_def\<close>)
  then show ?thesis
    by (simp add: WlzNMSuppress2DBufD_def scan_init_def)
qed

lemma pixI_unfold:
  assumes "inp = scan_inputs grdMBuf gYBuf gXBuf dPos oPos minG"
  shows "byte_of (pixI inp j) =
    (let prv = ring_row grdMBuf (vtY dPos + 3 - 1);
         cur = ring_row grdMBuf (vtY dPos + 3 + 0);
         nxt = ring_row grdMBuf (vtY dPos + 3 + 1);
         p = nat (vtX dPos) + (j - 1);
         gM = cur ! (p + 1); gX = gXBuf ! j; gY = gYBuf ! j;
         dCode = dTable ! dIndexI gY gX;
         (gMLft, gMRgt) = slopesI dCode prv cur nxt p gM gY gX
     in if gM \<noteq> 0 \<and> minG <s gM \<and> 0 <s gMLft \<and> 0 <s gMRgt then dCode OR 0x80 else 0)"
  by (simp add: assms pixI_def pixelI_def scan_inputs_def byte_of_def Let_def split: prod.splits)

lemma pixD_unfold:
  assumes "inp = scan_inputs grdMBuf gYBuf gXBuf dPos oPos minG"
  shows "byte_of (pixD eps inp j) =
    (let prv = ring_row grdMBuf (vtY dPos + 3 - 1);
         cur = ring_row grdMBuf (vtY dPos + 3 + 0);
         nxt = ring_row grdMBuf (vtY dPos + 3 + 1);
         p = nat (vtX dPos) + (j - 1);
         gM = cur ! (p + 1); gX = gXBuf ! j; gY = gYBuf ! j;
         dCode = dTable ! dIndexD gY gX;
         (gMLft, gMRgt) = slopesD dCode prv cur nxt p gM gY gX
     in if gM * gM > eps \<and> gM > minG \<and> gMLft > eps \<and> gMRgt > eps then dCode OR 0x80 else 0)"
  by (simp add: assms pixD_def pixelD_def scan_inputs_def byte_of_def Let_def split: prod.splits)

lemma pixI_mono:
  assumes "t1 \<le>s t2"
    and "pixI (scan_inputs grdMBuf gYBuf gXBuf dPos oPos t2) j = Some c"
  shows "pixI (scan_inputs grdMBuf gYBuf gXBuf dPos oPos t1) j = Some c"
proof -
  have "t2 <s g \<Longrightarrow> t1 <s g" for g
    using assms(1) by (simp add: word_sless_alt word_sle_eq)
  with assms(2) show ?thesis
    by (auto simp: pixI_def pixelI_def scan_inputs_def Let_def split: if_splits prod.splits)
qed

lemma pixD_mono:
  fixes t1 :: "'a::{zero,times,minus,inverse,preorder}"
  assumes "t1 \<le> t2"
    and "pixD eps (scan_inputs grdMBuf gYBuf gXBuf dPos oPos t2) j = Some c"
  shows "pixD eps (scan_inputs grdMBuf gYBuf gXBuf dPos oPos t1) j = Some c"
proof -
  have "t2 < g \<Longrightarrow> t1 < g" for g
    using assms(1) by (rule le_less_trans)
  with assms(2) show ?thesis
    by (auto simp: pixD_def pixelD_def scan_inputs_def Let_def split: if_splits prod.splits)
qed

lemma retained_cols_mono:
  assumes "t1 \<le>s t2"
  shows "retained_cols (scan_inputs grdMBuf gYBuf gXBuf dPos oPos t2) k
          \<subseteq> retained_cols (scan_inputs grdMBuf gYBuf gXBuf dPos oPos t1) k"
proof -
  have "pixI (scan_inputs grdMBuf gYBuf gXBuf dPos oPos t2) j \<noteq> None \<Longrightarrow>
        pixI (scan_inputs grdMBuf gYBuf gXBuf dPos oPos t1) j \<noteq> None" for j
    using pixI_mono [OF assms] by fastforce
  then show ?thesis
    unfolding retained_cols_def by (auto simp: scan_inputs_def)
qed

lemma byte_of_eq_0 [simp]: "byte_of m = 0 \<longleftrightarrow> m = None"
  by (cases m) (simp_all add: byte_of_def flag_nonzero)

section \<open>Integer samples in the floating scanner\<close>

lemma sint_in_range:
  fixes k :: int
  assumes "\<bar>k\<bar> < 2 ^ 31"
  shows "sint (word_of_int k :: cint) = k"
proof -
  have "signed_take_bit 31 k = k"
    using assms by (intro signed_take_bit_int_eq_self) auto
  then show ?thesis by (simp add: sint_sbintrunc')
qed

lemma sint_diff_small:
  assumes "small_sample a" "small_sample b"
  shows "sint (a - b) = sint a - sint b"
proof -
  have "a - b = word_of_int (sint a - sint b)" by simp
  moreover have "\<bar>sint a - sint b\<bar> < 2 ^ 31"
    using assms by (simp add: small_sample_def)
  ultimately show ?thesis by (metis sint_in_range)
qed

lemma abs_mult_bound:
  fixes u v :: int
  assumes "\<bar>u\<bar> \<le> U" "\<bar>v\<bar> \<le> V"
  shows "\<bar>u * v\<bar> \<le> U * V"
  using assms by (simp add: abs_mult mult_mono)

lemma sint_mult_small:
  assumes "small_sample x" "small_sample y"
  shows "sint (x * y) = sint x * sint y"
proof -
  have "x * y = word_of_int (sint x * sint y)" by simp
  moreover have "\<bar>sint x * sint y\<bar> \<le> 2 ^ 14 * 2 ^ 14"
    using assms unfolding small_sample_def by (intro abs_mult_bound)
  then have "\<bar>sint x * sint y\<bar> < 2 ^ 31" by simp
  ultimately show ?thesis by (metis sint_in_range)
qed

lemma sint_numerator:
  assumes "small_sample a" "small_sample b" "small_sample c" "small_sample d"
    "small_sample x" "small_sample y"
  shows "sint ((a - b) * x - (c - d) * y) = (sint a - sint b) * sint x - (sint c - sint d) * sint y"
    and "\<bar>(sint a - sint b) * sint x - (sint c - sint d) * sint y\<bar> < 2 ^ 31"
proof -
  let ?N = "(sint a - sint b) * sint x - (sint c - sint d) * sint y"
  have 1: "\<bar>sint a - sint b\<bar> \<le> 2 ^ 15" "\<bar>sint c - sint d\<bar> \<le> 2 ^ 15"
    using assms by (simp_all add: small_sample_def)
  have "\<bar>(sint a - sint b) * sint x\<bar> \<le> 2 ^ 15 * 2 ^ 14"
    using 1(1) assms(5) unfolding small_sample_def by (intro abs_mult_bound)
  moreover have "\<bar>(sint c - sint d) * sint y\<bar> \<le> 2 ^ 15 * 2 ^ 14"
    using 1(2) assms(6) unfolding small_sample_def by (intro abs_mult_bound)
  ultimately show b: "\<bar>?N\<bar> < 2 ^ 31" by simp
  have "(a - b) * x - (c - d) * y = word_of_int ?N" by simp
  with b show "sint ((a - b) * x - (c - d) * y) = ?N" by (metis sint_in_range)
qed

lemma sdiv_pos_imp_quotient_ge_1:
  fixes N G :: int
  assumes "0 < N sdiv G"
  shows "1 \<le> real_of_int N / real_of_int G"
proof -
  from assms have nz: "G \<noteq> 0" by (auto simp: signed_divide_int_def)
  from assms have s: "sgn N * sgn G * (\<bar>N\<bar> div \<bar>G\<bar>) > 0"
    by (simp add: signed_divide_int_def)
  have d0: "0 \<le> \<bar>N\<bar> div \<bar>G\<bar>" by (simp add: div_int_pos_iff)
  from s have "(0 < sgn N * sgn G \<and> 0 < \<bar>N\<bar> div \<bar>G\<bar>) \<or>
                (sgn N * sgn G < 0 \<and> \<bar>N\<bar> div \<bar>G\<bar> < 0)"
    by (simp only: zero_less_mult_iff)
  with d0 have d: "0 < \<bar>N\<bar> div \<bar>G\<bar>" and sg: "0 < sgn N * sgn G"
    by auto
  from d nz have ge: "\<bar>G\<bar> \<le> \<bar>N\<bar>"
    by (metis abs_ge_zero div_pos_pos_trivial linorder_not_less order_less_irrefl)
  from sg have same: "(0 < N \<and> 0 < G) \<or> (N < 0 \<and> G < 0)"
    by (auto simp: zero_less_mult_iff sgn_if split: if_splits)
  then show ?thesis
  proof
    assume "0 < N \<and> 0 < G"
    with ge show ?thesis by (simp add: le_divide_eq)
  next
    assume "N < 0 \<and> G < 0"
    with ge show ?thesis by (simp add: le_divide_eq divide_le_eq)
  qed
qed

lemma DBL_EPSILON_lt_1: "DBL_EPSILON < 1"
  by (simp add: DBL_EPSILON_def)

lemma to_double_le_iff: "to_double a \<le> to_double b \<longleftrightarrow> sint a \<le> sint b"
  unfolding to_double_def by (rule of_int_le_iff)

lemma to_double_less_iff: "to_double a < to_double b \<longleftrightarrow> sint a < sint b"
  unfolding to_double_def by (rule of_int_less_iff)

lemma to_double_mult: "to_double a * to_double b = real_of_int (sint a * sint b)"
  unfolding to_double_def by (rule of_int_mult [symmetric])

lemma to_double_0: "to_double 0 = 0"
  by (simp add: to_double_def)

lemma slope_transfer:
  assumes "small_sample a" "small_sample b" "small_sample c" "small_sample d"
    "small_sample x" "small_sample y"
    and "0 <s cdiv ((a - b) * x - (c - d) * y) g"
  shows "DBL_EPSILON < ((to_double a - to_double b) * to_double x
                       - (to_double c - to_double d) * to_double y) / to_double g"
proof -
  let ?N = "(sint a - sint b) * sint x - (sint c - sint d) * sint y"
  note n = sint_numerator [OF assms(1-6)]
  have "\<bar>?N sdiv sint g\<bar> \<le> \<bar>?N\<bar>"
    using sdiv_int_range [of ?N "sint g"] by auto
  with n(2) have "\<bar>?N sdiv sint g\<bar> < 2 ^ 31" by linarith
  then have "sint (cdiv ((a - b) * x - (c - d) * y) g) = ?N sdiv sint g"
    unfolding cdiv_def n(1) by (rule sint_in_range)
  with assms(7) have "0 < ?N sdiv sint g"
    by (simp add: word_sless_alt)
  then have "1 \<le> real_of_int ?N / real_of_int (sint g)"
    by (rule sdiv_pos_imp_quotient_ge_1)
  with DBL_EPSILON_lt_1 have "DBL_EPSILON < real_of_int ?N / real_of_int (sint g)"
    by linarith
  moreover have "((to_double a - to_double b) * to_double x
                       - (to_double c - to_double d) * to_double y) / to_double g
                 = real_of_int ?N / real_of_int (sint g)"
    by (simp add: to_double_def)
  ultimately show ?thesis by (simp only:)
qed

lemma small_nth: "small_row r \<Longrightarrow> i < length r \<Longrightarrow> small_sample (r ! i)"
  by (simp add: small_row_def)

lemma dIndex_transfer:
  assumes "small_sample gY" "small_sample gX"
  shows "dIndexD (to_double gY) (to_double gX) = dIndexI gY gX"
proof -
  have "sint (gX * gX) = sint gX * sint gX" "sint (gY * gY) = sint gY * sint gY"
    using assms by (simp_all add: sint_mult_small)
  then have "gX * gX \<le>s gY * gY \<longleftrightarrow> to_double gX * to_double gX \<le> to_double gY * to_double gY"
    by (simp only: word_sle_eq to_double_mult of_int_le_iff)
  moreover have "0 \<le>s gY \<longleftrightarrow> 0 \<le> to_double gY" "0 \<le>s gX \<longleftrightarrow> 0 \<le> to_double gX"
    using to_double_le_iff [of 0 gY] to_double_le_iff [of 0 gX]
    by (simp_all only: word_sle_eq to_double_0)
  ultimately show ?thesis
    by (simp only: dIndexI_def dIndexD_def)
qed

lemma test_transfer:
  assumes "gM \<noteq> 0" "minG <s gM"
  shows "to_double gM * to_double gM > DBL_EPSILON" "to_double gM > to_double minG"
proof -
  from assms(1) have "sint gM \<noteq> 0" by (simp add: signed_eq_0_iff)
  then have "0 < sint gM * sint gM"
    by (auto simp: zero_less_mult_iff)
  then have "1 \<le> sint gM * sint gM" by linarith
  then have "(1::real) \<le> real_of_int (sint gM * sint gM)"
    by (simp only: of_int_1_le_iff)
  with DBL_EPSILON_lt_1 show "to_double gM * to_double gM > DBL_EPSILON"
    unfolding to_double_mult by linarith
  show "to_double gM > to_double minG"
    using assms(2) by (simp only: word_sless_alt to_double_less_iff)
qed

lemma dTable_cases:
  assumes "i < 8"
  shows "dTable ! i = 0 \<or> dTable ! i = 1 \<or> dTable ! i = 2 \<or> dTable ! i = 3 \<or>
         dTable ! i = 4 \<or> dTable ! i = 5 \<or> dTable ! i = 6 \<or> dTable ! i = 7"
proof -
  from assms have "i = 0 \<or> i = 1 \<or> i = 2 \<or> i = 3 \<or> i = 4 \<or> i = 5 \<or> i = 6 \<or> i = 7"
    by linarith
  then show ?thesis by (auto simp: dTable_def)
qed

lemma dIndexI_lt_8: "dIndexI gY gX < 8"
  by (simp add: dIndexI_arith)

lemma slopes_transfer:
  assumes c: "c = 0 \<or> c = 1 \<or> c = 2 \<or> c = 3 \<or> c = 4 \<or> c = 5 \<or> c = 6 \<or> c = (7::UBYTE)"
    and len: "p + 2 < length prv" "p + 2 < length cur" "p + 2 < length nxt"
    and sm: "small_row prv" "small_row cur" "small_row nxt"
      "small_sample gM" "small_sample gY" "small_sample gX"
    and pos: "0 <s fst (slopesI c prv cur nxt p gM gY gX)"
             "0 <s snd (slopesI c prv cur nxt p gM gY gX)"
  shows "DBL_EPSILON < fst (slopesD c (map to_double prv) (map to_double cur) (map to_double nxt) p
                         (to_double gM) (to_double gY) (to_double gX)) \<and>
         DBL_EPSILON < snd (slopesD c (map to_double prv) (map to_double cur) (map to_double nxt) p
                         (to_double gM) (to_double gY) (to_double gX))"
proof -
  have s: "small_sample (prv ! p)" "small_sample (prv ! Suc p)" "small_sample (prv ! Suc (Suc p))"
    "small_sample (cur ! p)" "small_sample (cur ! Suc (Suc p))"
    "small_sample (nxt ! p)" "small_sample (nxt ! Suc p)" "small_sample (nxt ! Suc (Suc p))"
    using len sm(1-3) by (simp_all add: small_nth)
  have m: "map to_double prv ! p = to_double (prv ! p)"
    "map to_double prv ! Suc p = to_double (prv ! Suc p)"
    "map to_double prv ! Suc (Suc p) = to_double (prv ! Suc (Suc p))"
    "map to_double cur ! p = to_double (cur ! p)"
    "map to_double cur ! Suc (Suc p) = to_double (cur ! Suc (Suc p))"
    "map to_double nxt ! p = to_double (nxt ! p)"
    "map to_double nxt ! Suc p = to_double (nxt ! Suc p)"
    "map to_double nxt ! Suc (Suc p) = to_double (nxt ! Suc (Suc p))"
    using len by simp_all
  note t = slope_transfer [OF _ _ _ _ sm(6) sm(5)]
  from c show ?thesis
  proof (elim disjE)
    assume "c = 0"
    with pos show ?thesis
      by (simp add: slopesI_def slopesD_def Let_def m t s sm(4))
  next
    assume "c = 1"
    with pos show ?thesis
      by (simp add: slopesI_def slopesD_def Let_def m t s sm(4))
  next
    assume "c = 2"
    with pos show ?thesis
      by (simp add: slopesI_def slopesD_def Let_def m t s sm(4))
  next
    assume "c = 3"
    with pos show ?thesis
      by (simp add: slopesI_def slopesD_def Let_def m t s sm(4))
  next
    assume "c = 4"
    with pos show ?thesis
      by (simp add: slopesI_def slopesD_def Let_def m t s sm(4))
  next
    assume "c = 5"
    with pos show ?thesis
      by (simp add: slopesI_def slopesD_def Let_def m t s sm(4))
  next
    assume "c = 6"
    with pos show ?thesis
      by (simp add: slopesI_def slopesD_def Let_def m t s sm(4))
  next
    assume "c = 7"
    with pos show ?thesis
      by (simp add: slopesI_def slopesD_def Let_def m t s sm(4))
  qed
qed

lemma smod_3_nonneg:
  fixes i :: int
  assumes "0 \<le> i"
  shows "nat (i smod 3) < 3"
proof -
  have "i smod 3 = i mod 3"
    using assms by (simp add: signed_modulo_int_def sgn_if)
  then show ?thesis by simp
qed

lemma ring_row_map:
  assumes "length M = 3" "0 \<le> i"
  shows "ring_row (map (map f) M) i = map f (ring_row M i)" and "ring_row M i \<in> set M"
  using assms smod_3_nonneg [OF assms(2)] by (simp_all add: ring_row_def)

lemma pixel_transfer:
  assumes M: "length grdMBuf = 3" "0 \<le> vtY dPos"
    and rows: "\<forall>r \<in> set grdMBuf. small_row r \<and> p + 2 < length r"
    and der: "small_row gYBuf" "small_row gXBuf" "q < length gYBuf" "q < length gXBuf"
    and pix: "pixelI (scan_inputs grdMBuf gYBuf gXBuf dPos oPos minG) p q = Some c"
  shows "pixelD DBL_EPSILON
           (scan_inputs (map (map to_double) grdMBuf) (map to_double gYBuf) (map to_double gXBuf)
              dPos oPos (to_double minG)) p q = Some c"
proof -
  define prv where "prv = ring_row grdMBuf (vtY dPos + 3 - 1)"
  define cur where "cur = ring_row grdMBuf (vtY dPos + 3 + 0)"
  define nxt where "nxt = ring_row grdMBuf (vtY dPos + 3 + 1)"
  define gM where "gM = cur ! (p + 1)"
  define gX where "gX = gXBuf ! q"
  define gY where "gY = gYBuf ! q"
  have i: "0 \<le> vtY dPos + 3 - 1" "0 \<le> vtY dPos + 3 + 0" "0 \<le> vtY dPos + 3 + 1"
    using M(2) by simp_all
  have mem: "prv \<in> set grdMBuf" "cur \<in> set grdMBuf" "nxt \<in> set grdMBuf"
    unfolding prv_def cur_def nxt_def by (rule ring_row_map(2) [OF M(1)], rule i)+
  with rows have sr: "small_row prv" "small_row cur" "small_row nxt"
    and len: "p + 2 < length prv" "p + 2 < length cur" "p + 2 < length nxt"
    by blast+
  have rr: "ring_row (map (map to_double) grdMBuf) (vtY dPos + 3 - 1) = map to_double prv"
    "ring_row (map (map to_double) grdMBuf) (vtY dPos + 3 + 0) = map to_double cur"
    "ring_row (map (map to_double) grdMBuf) (vtY dPos + 3 + 1) = map to_double nxt"
    unfolding prv_def cur_def nxt_def by (rule ring_row_map(1) [OF M(1)], rule i)+
  have sg: "small_sample gM" "small_sample gY" "small_sample gX"
    unfolding gM_def gY_def gX_def using sr(2) len(2) der by (simp_all add: small_nth)
  have conv: "map to_double cur ! (p + 1) = to_double gM"
    "map to_double gXBuf ! q = to_double gX" "map to_double gYBuf ! q = to_double gY"
    unfolding gM_def gX_def gY_def using len(2) der by simp_all
  from pix have t: "gM \<noteq> 0" "minG <s gM"
    and cc: "c = dTable ! dIndexI gY gX"
    and sl: "0 <s fst (slopesI c prv cur nxt p gM gY gX)"
            "0 <s snd (slopesI c prv cur nxt p gM gY gX)"
    unfolding gM_def gX_def gY_def prv_def cur_def nxt_def
    by (auto simp: pixelI_def scan_inputs_def Let_def split: if_splits prod.splits)
  have c8: "c = 0 \<or> c = 1 \<or> c = 2 \<or> c = 3 \<or> c = 4 \<or> c = 5 \<or> c = 6 \<or> c = 7"
    unfolding cc by (rule dTable_cases) (rule dIndexI_lt_8)
  note st = slopes_transfer [OF c8 len sr sg sl]
  note tt = test_transfer [OF t]
  have dc: "dTable ! dIndexD (to_double gY) (to_double gX) = c"
    by (simp only: dIndex_transfer [OF sg(2,3)] cc)
  have inp: "scan_inputs (map (map to_double) grdMBuf) (map to_double gYBuf) (map to_double gXBuf)
              dPos oPos (to_double minG) =
     \<lparr>grdMBufPrv = map to_double prv, grdMBufCur = map to_double cur,
      grdMBufNxt = map to_double nxt, grdYBuf = map to_double gYBuf,
      grdXBuf = map to_double gXBuf, minGM = to_double minG, dstPos = dPos, orgPos = oPos\<rparr>"
    by (simp only: scan_inputs_def rr)
  show ?thesis
    unfolding inp using st tt
    by (auto simp: pixelD_def conv [simplified] dc Let_def split: prod.splits)
qed

lemma pixI_transfer:
  assumes j: "1 \<le> j" "int j \<le> dstLen - 2"
    and M: "length grdMBuf = 3" "0 \<le> vtY dPos"
    and rows: "\<forall>r \<in> set grdMBuf. small_row r \<and> nat (vtX dPos) + nat dstLen \<le> length r"
    and der: "small_row gYBuf" "small_row gXBuf" "nat dstLen \<le> length gYBuf"
      "nat dstLen \<le> length gXBuf"
    and pix: "pixI (scan_inputs grdMBuf gYBuf gXBuf dPos oPos minG) j = Some c"
  shows "pixD DBL_EPSILON
           (scan_inputs (map (map to_double) grdMBuf) (map to_double gYBuf) (map to_double gXBuf)
              dPos oPos (to_double minG)) j = Some c"
proof -
  have r: "\<forall>r \<in> set grdMBuf. small_row r \<and> nat (vtX dPos) + (j - 1) + 2 < length r"
  proof
    fix r assume "r \<in> set grdMBuf"
    with rows have "small_row r" "nat (vtX dPos) + nat dstLen \<le> length r" by blast+
    moreover have "(j - 1) + 2 < nat dstLen" using j by linarith
    ultimately show "small_row r \<and> nat (vtX dPos) + (j - 1) + 2 < length r" by linarith
  qed
  have q: "j < length gYBuf" "j < length gXBuf" using j der(3,4) by linarith+
  from pix have "pixelI (scan_inputs grdMBuf gYBuf gXBuf dPos oPos minG)
                   (nat (vtX dPos) + (j - 1)) j = Some c"
    by (simp add: pixI_def scan_inputs_def)
  from pixel_transfer [OF M r der(1,2) q this] show ?thesis
    by (simp add: pixD_def scan_inputs_def)
qed

section \<open>The claims\<close>

text \<open>
  Claim C1.  For every interior pixel \<open>j\<close> (\<open>1 \<le> j \<le> dstLen - 2\<close>) of a loaded output row,
  the direction byte that a successful run of the integer scanner leaves at \<open>j\<close> is
  \<open>dCode | 0x80\<close> if \<open>gM\<close> is not zero, \<open>gM\<close> is greater than the threshold and both
  interpolated slopes are greater than zero, and 0 otherwise; the floating scanner,
  which always returns \<open>WLZ_ERR_NONE\<close>, leaves \<open>dCode | 0x80\<close> if \<open>gM * gM\<close> exceeds
  \<open>DBL_EPSILON\<close>, \<open>gM\<close> is greater than the threshold and both slopes exceed
  \<open>DBL_EPSILON\<close>, and 0 otherwise.  As \<open>dCode | 0x80\<close> is never 0, the byte is non-zero
  if and only if the pixel is retained.  The slopes are the ones the code computes
  (the integer ones with the truncating division).
\<close>

theorem pixel_retained_iff:
  assumes "1 \<le> j" and "int j \<le> dstLen - 2" and "nat dstLen \<le> length buf"
  shows "(let (e, bufI, dstI) = WlzNMSuppress2DBufI dst grdMBufI gYBufI gXBufI buf dstLen dPos oPos minGI;
              prv = ring_row grdMBufI (vtY dPos + 3 - 1);
              cur = ring_row grdMBufI (vtY dPos + 3 + 0);
              nxt = ring_row grdMBufI (vtY dPos + 3 + 1);
              p = nat (vtX dPos) + (j - 1);
              gM = cur ! (p + 1); gX = gXBufI ! j; gY = gYBufI ! j;
              dCode = dTable ! dIndexI gY gX;
              (gMLft, gMRgt) = slopesI dCode prv cur nxt p gM gY gX
          in e = WLZ_ERR_NONE \<longrightarrow>
               bufI ! j = (if gM \<noteq> 0 \<and> minGI <s gM \<and> 0 <s gMLft \<and> 0 <s gMRgt
                           then dCode OR 0x80 else 0) \<and>
               (bufI ! j \<noteq> 0 \<longleftrightarrow> gM \<noteq> 0 \<and> minGI <s gM \<and> 0 <s gMLft \<and> 0 <s gMRgt)) \<and>
         (let (e, bufD, dstD) = WlzNMSuppress2DBufD eps dst grdMBufD gYBufD gXBufD buf dstLen dPos oPos minGD;
              prv = ring_row grdMBufD (vtY dPos + 3 - 1);
              cur = ring_row grdMBufD (vtY dPos + 3 + 0);
              nxt = ring_row grdMBufD (vtY dPos + 3 + 1);
              p = nat (vtX dPos) + (j - 1);
              gM = cur ! (p + 1); gX = gXBufD ! j; gY = gYBufD ! j;
              dCode = dTable ! dIndexD gY gX;
              (gMLft, gMRgt) = slopesD dCode prv cur nxt p gM gY gX
          in e = WLZ_ERR_NONE \<and>
               bufD ! j = (if gM * gM > eps \<and> gM > minGD \<and> gMLft > eps \<and> gMRgt > eps
                           then dCode OR 0x80 else 0) \<and>
               (bufD ! j \<noteq> 0 \<longleftrightarrow> gM * gM > eps \<and> gM > minGD \<and> gMLft > eps \<and> gMRgt > eps))"
proof -
  obtain e bufI dstI where
    I: "WlzNMSuppress2DBufI dst grdMBufI gYBufI gXBufI buf dstLen dPos oPos minGI = (e, bufI, dstI)"
    by (metis prod_cases3)
  obtain e' bufD dstD where
    D: "WlzNMSuppress2DBufD eps dst grdMBufD gYBufD gXBufD buf dstLen dPos oPos minGD = (e', bufD, dstD)"
    by (metis prod_cases3)
  from assms have n: "1 \<le> dstLen" by linarith
  have bI: "e = WLZ_ERR_NONE \<Longrightarrow>
     bufI ! j = byte_of (pixI (scan_inputs grdMBufI gYBufI gXBufI dPos oPos minGI) j)"
    using BufI_result(4) [OF I n assms(3) refl _ assms(1,2)] by simp
  have bD: "e' = WLZ_ERR_NONE"
     "bufD ! j = byte_of (pixD eps (scan_inputs grdMBufD gYBufD gXBufD dPos oPos minGD) j)"
    using BufD_result(1,6) [OF D n assms(3) refl] assms(1,2) by simp_all
  have 1: "(let (e, bufI, dstI) = (e, bufI, dstI);
              prv = ring_row grdMBufI (vtY dPos + 3 - 1);
              cur = ring_row grdMBufI (vtY dPos + 3 + 0);
              nxt = ring_row grdMBufI (vtY dPos + 3 + 1);
              p = nat (vtX dPos) + (j - 1);
              gM = cur ! (p + 1); gX = gXBufI ! j; gY = gYBufI ! j;
              dCode = dTable ! dIndexI gY gX;
              (gMLft, gMRgt) = slopesI dCode prv cur nxt p gM gY gX
          in e = WLZ_ERR_NONE \<longrightarrow>
               bufI ! j = (if gM \<noteq> 0 \<and> minGI <s gM \<and> 0 <s gMLft \<and> 0 <s gMRgt
                           then dCode OR 0x80 else 0) \<and>
               (bufI ! j \<noteq> 0 \<longleftrightarrow> gM \<noteq> 0 \<and> minGI <s gM \<and> 0 <s gMLft \<and> 0 <s gMRgt))"
    using bI by (auto simp: pixI_unfold [OF refl] Let_def flag_nonzero split: prod.splits)
  have 2: "(let (e, bufD, dstD) = (e', bufD, dstD);
              prv = ring_row grdMBufD (vtY dPos + 3 - 1);
              cur = ring_row grdMBufD (vtY dPos + 3 + 0);
              nxt = ring_row grdMBufD (vtY dPos + 3 + 1);
              p = nat (vtX dPos) + (j - 1);
              gM = cur ! (p + 1); gX = gXBufD ! j; gY = gYBufD ! j;
              dCode = dTable ! dIndexD gY gX;
              (gMLft, gMRgt) = slopesD dCode prv cur nxt p gM gY gX
          in e = WLZ_ERR_NONE \<and>
               bufD ! j = (if gM * gM > eps \<and> gM > minGD \<and> gMLft > eps \<and> gMRgt > eps
                           then dCode OR 0x80 else 0) \<and>
               (bufD ! j \<noteq> 0 \<longleftrightarrow> gM * gM > eps \<and> gM > minGD \<and> gMLft > eps \<and> gMRgt > eps))"
    using bD by (auto simp: pixD_unfold [OF refl] Let_def flag_nonzero split: prod.splits)
  from 1 2 show ?thesis unfolding I D by blast
qed

theorem pixel_retained_iff_witness:
  "1 \<le> (2::nat) \<and>
   int 2 \<le> 5 - 2 \<and>
   nat 5 \<le> length dirBuf \<and>
   WlzNMSuppress2DBufI emptyPool ridgeM ridgeY ridgeX dirBuf 5 rowPos origin 0 =
     (WLZ_ERR_NONE, [0, 134, 134, 134, 0], \<lparr>itvs = [(11, 101, 3)], avail = 4\<rparr>) \<and>
   WlzNMSuppress2DBufD DBL_EPSILON emptyPool ridgeMD ridgeYD ridgeXD dirBuf 5 rowPos origin 0 =
     (WLZ_ERR_NONE, [0, 134, 134, 134, 0], \<lparr>itvs = [], avail = 5\<rparr>) \<and>
   ((let (e, bufI, dstI) = WlzNMSuppress2DBufI emptyPool ridgeM ridgeY ridgeX dirBuf 5 rowPos origin 0;
              prv = ring_row ridgeM (vtY rowPos + 3 - 1);
              cur = ring_row ridgeM (vtY rowPos + 3 + 0);
              nxt = ring_row ridgeM (vtY rowPos + 3 + 1);
              p = nat (vtX rowPos) + (2 - 1);
              gM = cur ! (p + 1); gX = ridgeX ! 2; gY = ridgeY ! 2;
              dCode = dTable ! dIndexI gY gX;
              (gMLft, gMRgt) = slopesI dCode prv cur nxt p gM gY gX
          in e = WLZ_ERR_NONE \<longrightarrow>
               bufI ! 2 = (if gM \<noteq> 0 \<and> 0 <s gM \<and> 0 <s gMLft \<and> 0 <s gMRgt
                           then dCode OR 0x80 else 0) \<and>
               (bufI ! 2 \<noteq> 0 \<longleftrightarrow> gM \<noteq> 0 \<and> 0 <s gM \<and> 0 <s gMLft \<and> 0 <s gMRgt)) \<and>
         (let (e, bufD, dstD) = WlzNMSuppress2DBufD DBL_EPSILON emptyPool ridgeMD ridgeYD ridgeXD dirBuf 5 rowPos origin 0;
              prv = ring_row ridgeMD (vtY rowPos + 3 - 1);
              cur = ring_row ridgeMD (vtY rowPos + 3 + 0);
              nxt = ring_row ridgeMD (vtY rowPos + 3 + 1);
              p = nat (vtX rowPos) + (2 - 1);
              gM = cur ! (p + 1); gX = ridgeXD ! 2; gY = ridgeYD ! 2;
              dCode = dTable ! dIndexD gY gX;
              (gMLft, gMRgt) = slopesD dCode prv cur nxt p gM gY gX
          in e = WLZ_ERR_NONE \<and>
               bufD ! 2 = (if gM * gM > DBL_EPSILON \<and> gM > 0 \<and> gMLft > DBL_EPSILON \<and> gMRgt > DBL_EPSILON
                           then dCode OR 0x80 else 0) \<and>
               (bufD ! 2 \<noteq> 0 \<longleftrightarrow> gM * gM > DBL_EPSILON \<and> gM > 0 \<and> gMLft > DBL_EPSILON \<and> gMRgt > DBL_EPSILON)))"
proof -
  have h: "1 \<le> (2::nat)"
    "int 2 \<le> 5 - 2"
    "nat 5 \<le> length dirBuf"
    by (simp_all add: dirBuf_def)
  have v: "WlzNMSuppress2DBufI emptyPool ridgeM ridgeY ridgeX dirBuf 5 rowPos origin 0 =
     (WLZ_ERR_NONE, [0, 134, 134, 134, 0], \<lparr>itvs = [(11, 101, 3)], avail = 4\<rparr>)"
    "WlzNMSuppress2DBufD DBL_EPSILON emptyPool ridgeMD ridgeYD ridgeXD dirBuf 5 rowPos origin 0 =
     (WLZ_ERR_NONE, [0, 134, 134, 134, 0], \<lparr>itvs = [], avail = 5\<rparr>)"
    by code_simp+
  from h v pixel_retained_iff [OF h,
      where dst = emptyPool and
        dPos = rowPos and
        oPos = origin and
        grdMBufI = ridgeM and
        gYBufI = ridgeY and
        gXBufI = ridgeX and
        eps = DBL_EPSILON and
        grdMBufD = ridgeMD and
        gYBufD = ridgeYD and
        gXBufD = ridgeXD and
        minGI = 0 and
        minGD = 0]
  show ?thesis by blast
qed

text \<open>
  Claim C2 (the code does not do this in the floating scanner).  The integer scanner counts
  the retained pixels in \<open>itvLen\<close> and appends a run when the run ends.  The floating
  scanner stores the direction byte of a retained pixel but never assigns \<open>itvLen\<close>,
  so its test \<open>itvLen > 0\<close> always fails and no run is ever appended.  On the row
  below (magnitudes 16 64 64 64 16 between two rows of 16, \<open>gY = 2\<close>, \<open>gX = 0\<close>, where
  every floating operation is exact) both scanners retain the three interior pixels
  with byte 134; the integer scanner appends the run (line 11, column 101, length 3),
  the floating scanner leaves the destination empty.
\<close>

theorem floating_scanner_appends_no_run:
  "WlzNMSuppress2DBufD DBL_EPSILON \<lparr>itvs = [], avail = 5\<rparr>
       [[16, 16, 16, 16, 16], [16, 64, 64, 64, 16], [16, 16, 16, 16, 16]] [2, 2, 2, 2, 2]
       [0, 0, 0, 0, 0] [9, 9, 9, 9, 9] 5 \<lparr>vtX = 0, vtY = 1\<rparr> \<lparr>vtX = 100, vtY = 10\<rparr> 0 =
     (WLZ_ERR_NONE, [0, 134, 134, 134, 0], \<lparr>itvs = [], avail = 5\<rparr>) \<and>
   WlzNMSuppress2DBufI \<lparr>itvs = [], avail = 5\<rparr>
       [[16, 16, 16, 16, 16], [16, 64, 64, 64, 16], [16, 16, 16, 16, 16]] [2, 2, 2, 2, 2]
       [0, 0, 0, 0, 0] [9, 9, 9, 9, 9] 5 \<lparr>vtX = 0, vtY = 1\<rparr> \<lparr>vtX = 100, vtY = 10\<rparr> 0 =
     (WLZ_ERR_NONE, [0, 134, 134, 134, 0], \<lparr>itvs = [(11, 101, 3)], avail = 4\<rparr>)"
  by code_simp

text \<open>
  Claim C3.  The table is \<open>{3, 2, 0, 1, 4, 5, 7, 6}\<close>.  With
  \<open>b = (gY \<ge> 0) * 4 + (gX \<ge> 0) * 2 + (gY * gY \<ge> gX * gX)\<close> computed on the pixel's
  derivatives (in the arithmetic of the samples), \<open>dTable[b]\<close> is at most 7, and the
  byte stored for an interior pixel is either 0 or \<open>dTable[b] | 0x80\<close>, which lies in
  128..135, in both scanners.
\<close>

theorem direction_code_from_table:
  assumes "1 \<le> j" and "int j \<le> dstLen - 2" and "nat dstLen \<le> length buf"
  shows "dTable = [3, 2, 0, 1, 4, 5, 7, 6] \<and>
         (let (e, bufI, dstI) = WlzNMSuppress2DBufI dst grdMBufI gYBufI gXBufI buf dstLen dPos oPos minGI;
              gX = gXBufI ! j; gY = gYBufI ! j;
              b = of_bool (0 \<le>s gY) * 4 + of_bool (0 \<le>s gX) * 2 + of_bool (gX * gX \<le>s gY * gY);
              dCode = dTable ! b
          in dCode \<le> 7 \<and>
             (e = WLZ_ERR_NONE \<longrightarrow>
                bufI ! j = 0 \<or> (bufI ! j = dCode OR 0x80 \<and> 128 \<le> bufI ! j \<and> bufI ! j \<le> 135))) \<and>
         (let (e, bufD, dstD) = WlzNMSuppress2DBufD eps dst grdMBufD gYBufD gXBufD buf dstLen dPos oPos minGD;
              gX = gXBufD ! j; gY = gYBufD ! j;
              b = of_bool (gY \<ge> 0) * 4 + of_bool (gX \<ge> 0) * 2 + of_bool (gY * gY \<ge> gX * gX);
              dCode = dTable ! b
          in dCode \<le> 7 \<and>
             (bufD ! j = 0 \<or> (bufD ! j = dCode OR 0x80 \<and> 128 \<le> bufD ! j \<and> bufD ! j \<le> 135)))"
proof -
  obtain e bufI dstI where
    I: "WlzNMSuppress2DBufI dst grdMBufI gYBufI gXBufI buf dstLen dPos oPos minGI = (e, bufI, dstI)"
    by (metis prod_cases3)
  obtain e' bufD dstD where
    D: "WlzNMSuppress2DBufD eps dst grdMBufD gYBufD gXBufD buf dstLen dPos oPos minGD = (e', bufD, dstD)"
    by (metis prod_cases3)
  from assms have n: "1 \<le> dstLen" by linarith
  define bI :: nat where "bI = of_bool (0 \<le>s gYBufI ! j) * 4 + of_bool (0 \<le>s gXBufI ! j) * 2 +
           of_bool (gXBufI ! j * gXBufI ! j \<le>s gYBufI ! j * gYBufI ! j)"
  define bD :: nat where "bD = of_bool (gYBufD ! j \<ge> 0) * 4 + of_bool (gXBufD ! j \<ge> 0) * 2 +
           of_bool (gYBufD ! j * gYBufD ! j \<ge> gXBufD ! j * gXBufD ! j)"
  note tI = dTable_code [OF bI_def]
  note tD = dTable_code [OF bD_def]
  have iI: "dIndexI (gYBufI ! j) (gXBufI ! j) = bI"
    by (simp add: dIndexI_arith bI_def)
  have iD: "dIndexD (gYBufD ! j) (gXBufD ! j) = bD"
    by (simp add: dIndexD_arith bD_def)
  have "bufI ! j = byte_of (pixI (scan_inputs grdMBufI gYBufI gXBufI dPos oPos minGI) j)"
    if "e = WLZ_ERR_NONE"
    using BufI_result(4) [OF I n assms(3) refl that assms(1,2)] .
  then have 1: "e = WLZ_ERR_NONE \<longrightarrow> bufI ! j = 0 \<or> bufI ! j = dTable ! bI OR 0x80"
    by (auto simp: pixI_unfold [OF refl] Let_def iI split: prod.splits if_splits)
  have "bufD ! j = byte_of (pixD eps (scan_inputs grdMBufD gYBufD gXBufD dPos oPos minGD) j)"
    using BufD_result(6) [OF D n assms(3) refl assms(1,2)] .
  then have 2: "bufD ! j = 0 \<or> bufD ! j = dTable ! bD OR 0x80"
    by (auto simp: pixD_unfold [OF refl] Let_def iD split: prod.splits if_splits)
  have t: "dTable = [3, 2, 0, 1, 4, 5, 7, 6]" by (simp add: dTable_def)
  from 1 tI have 3: "dTable ! bI \<le> 7 \<and>
             (e = WLZ_ERR_NONE \<longrightarrow>
                bufI ! j = 0 \<or> (bufI ! j = dTable ! bI OR 0x80 \<and> 128 \<le> bufI ! j \<and> bufI ! j \<le> 135))"
    by auto
  from 2 tD have 4: "dTable ! bD \<le> 7 \<and>
             (bufD ! j = 0 \<or> (bufD ! j = dTable ! bD OR 0x80 \<and> 128 \<le> bufD ! j \<and> bufD ! j \<le> 135))"
    by auto
  from t 3 4 show ?thesis
    unfolding I D Let_def prod.case bI_def bD_def by blast
qed

theorem direction_code_from_table_witness:
  "1 \<le> (2::nat) \<and>
   int 2 \<le> 5 - 2 \<and>
   nat 5 \<le> length dirBuf \<and>
   WlzNMSuppress2DBufI emptyPool ridgeM ridgeY ridgeX dirBuf 5 rowPos origin 0 =
     (WLZ_ERR_NONE, [0, 134, 134, 134, 0], \<lparr>itvs = [(11, 101, 3)], avail = 4\<rparr>) \<and>
   WlzNMSuppress2DBufD DBL_EPSILON emptyPool ridgeMD ridgeYD ridgeXD dirBuf 5 rowPos origin 0 =
     (WLZ_ERR_NONE, [0, 134, 134, 134, 0], \<lparr>itvs = [], avail = 5\<rparr>) \<and>
   (dTable = [3, 2, 0, 1, 4, 5, 7, 6] \<and>
         (let (e, bufI, dstI) = WlzNMSuppress2DBufI emptyPool ridgeM ridgeY ridgeX dirBuf 5 rowPos origin 0;
              gX = ridgeX ! 2; gY = ridgeY ! 2;
              b = of_bool (0 \<le>s gY) * 4 + of_bool (0 \<le>s gX) * 2 + of_bool (gX * gX \<le>s gY * gY);
              dCode = dTable ! b
          in dCode \<le> 7 \<and>
             (e = WLZ_ERR_NONE \<longrightarrow>
                bufI ! 2 = 0 \<or> (bufI ! 2 = dCode OR 0x80 \<and> 128 \<le> bufI ! 2 \<and> bufI ! 2 \<le> 135))) \<and>
         (let (e, bufD, dstD) = WlzNMSuppress2DBufD DBL_EPSILON emptyPool ridgeMD ridgeYD ridgeXD dirBuf 5 rowPos origin 0;
              gX = ridgeXD ! 2; gY = ridgeYD ! 2;
              b = of_bool (gY \<ge> 0) * 4 + of_bool (gX \<ge> 0) * 2 + of_bool (gY * gY \<ge> gX * gX);
              dCode = dTable ! b
          in dCode \<le> 7 \<and>
             (bufD ! 2 = 0 \<or> (bufD ! 2 = dCode OR 0x80 \<and> 128 \<le> bufD ! 2 \<and> bufD ! 2 \<le> 135))))"
proof -
  have h: "1 \<le> (2::nat)"
    "int 2 \<le> 5 - 2"
    "nat 5 \<le> length dirBuf"
    by (simp_all add: dirBuf_def)
  have v: "WlzNMSuppress2DBufI emptyPool ridgeM ridgeY ridgeX dirBuf 5 rowPos origin 0 =
     (WLZ_ERR_NONE, [0, 134, 134, 134, 0], \<lparr>itvs = [(11, 101, 3)], avail = 4\<rparr>)"
    "WlzNMSuppress2DBufD DBL_EPSILON emptyPool ridgeMD ridgeYD ridgeXD dirBuf 5 rowPos origin 0 =
     (WLZ_ERR_NONE, [0, 134, 134, 134, 0], \<lparr>itvs = [], avail = 5\<rparr>)"
    by code_simp+
  from h v direction_code_from_table [OF h,
      where dst = emptyPool and
        dPos = rowPos and
        oPos = origin and
        grdMBufI = ridgeM and
        gYBufI = ridgeY and
        gXBufI = ridgeX and
        eps = DBL_EPSILON and
        grdMBufD = ridgeMD and
        gYBufD = ridgeYD and
        gXBufD = ridgeXD and
        minGI = 0 and
        minGD = 0]
  show ?thesis by blast
qed

text \<open>
  Claim C4.  For every row given to either scanner (of length at least 1, lying in the
  direction buffer), the bytes of the first and of the last column are 0 on return,
  whatever the error code is, and no run that the scanner appended contains the first
  or the last column: the integer scanner's new runs avoid both columns, the floating
  scanner returns the destination unchanged.
\<close>

theorem boundary_columns_never_retained:
  assumes "1 \<le> dstLen" and "nat dstLen \<le> length buf"
  shows "(let (e, bufI, dstI) = WlzNMSuppress2DBufI dst grdMBufI gYBufI gXBufI buf dstLen dPos oPos minGI
          in bufI ! 0 = 0 \<and> bufI ! nat (dstLen - 1) = 0 \<and>
             (\<exists>new. itvs dstI = itvs dst @ new \<and>
                (\<forall>(y, l, len) \<in> set new.
                    vtX dPos + vtX oPos \<notin> {l ..< l + len} \<and>
                    vtX dPos + dstLen - 1 + vtX oPos \<notin> {l ..< l + len}))) \<and>
         (let (e, bufD, dstD) = WlzNMSuppress2DBufD eps dst grdMBufD gYBufD gXBufD buf dstLen dPos oPos minGD
          in bufD ! 0 = 0 \<and> bufD ! nat (dstLen - 1) = 0 \<and> dstD = dst)"
proof -
  obtain e bufI dstI where
    I: "WlzNMSuppress2DBufI dst grdMBufI gYBufI gXBufI buf dstLen dPos oPos minGI = (e, bufI, dstI)"
    by (metis prod_cases3)
  obtain e' bufD dstD where
    D: "WlzNMSuppress2DBufD eps dst grdMBufD gYBufD gXBufD buf dstLen dPos oPos minGD = (e', bufD, dstD)"
    by (metis prod_cases3)
  note rI = BufI_result [OF I assms refl]
  note rD = BufD_result [OF D assms refl]
  from rI(5) obtain new where new: "itvs dstI = itvs dst @ new"
    and bnd: "\<forall>(y, l, len) \<in> set new.
               y = vtY dPos + vtY oPos \<and> 1 \<le> len \<and>
               vtX dPos + 1 + vtX oPos \<le> l \<and> l + len \<le> vtX dPos + dstLen - 1 + vtX oPos"
    by blast
  have "\<forall>(y, l, len) \<in> set new.
          vtX dPos + vtX oPos \<notin> {l ..< l + len} \<and>
          vtX dPos + dstLen - 1 + vtX oPos \<notin> {l ..< l + len}"
    using bnd by fastforce
  with new rI(2,3) rD(2,4,5) show ?thesis
    unfolding I D by auto
qed

theorem boundary_columns_never_retained_witness:
  "(1::int) \<le> 5 \<and>
   nat 5 \<le> length dirBuf \<and>
   WlzNMSuppress2DBufI emptyPool ridgeM ridgeY ridgeX dirBuf 5 rowPos origin 0 =
     (WLZ_ERR_NONE, [0, 134, 134, 134, 0], \<lparr>itvs = [(11, 101, 3)], avail = 4\<rparr>) \<and>
   WlzNMSuppress2DBufD DBL_EPSILON emptyPool ridgeMD ridgeYD ridgeXD dirBuf 5 rowPos origin 0 =
     (WLZ_ERR_NONE, [0, 134, 134, 134, 0], \<lparr>itvs = [], avail = 5\<rparr>) \<and>
   ((let (e, bufI, dstI) = WlzNMSuppress2DBufI emptyPool ridgeM ridgeY ridgeX dirBuf 5 rowPos origin 0
          in bufI ! 0 = 0 \<and> bufI ! nat (5 - 1) = 0 \<and>
             (\<exists>new. itvs dstI = itvs emptyPool @ new \<and>
                (\<forall>(y, l, len) \<in> set new.
                    vtX rowPos + vtX origin \<notin> {l ..< l + len} \<and>
                    vtX rowPos + 5 - 1 + vtX origin \<notin> {l ..< l + len}))) \<and>
         (let (e, bufD, dstD) = WlzNMSuppress2DBufD DBL_EPSILON emptyPool ridgeMD ridgeYD ridgeXD dirBuf 5 rowPos origin 0
          in bufD ! 0 = 0 \<and> bufD ! nat (5 - 1) = 0 \<and> dstD = emptyPool))"
proof -
  have h: "(1::int) \<le> 5"
    "nat 5 \<le> length dirBuf"
    by (simp_all add: dirBuf_def)
  have v: "WlzNMSuppress2DBufI emptyPool ridgeM ridgeY ridgeX dirBuf 5 rowPos origin 0 =
     (WLZ_ERR_NONE, [0, 134, 134, 134, 0], \<lparr>itvs = [(11, 101, 3)], avail = 4\<rparr>)"
    "WlzNMSuppress2DBufD DBL_EPSILON emptyPool ridgeMD ridgeYD ridgeXD dirBuf 5 rowPos origin 0 =
     (WLZ_ERR_NONE, [0, 134, 134, 134, 0], \<lparr>itvs = [], avail = 5\<rparr>)"
    by code_simp+
  from h v boundary_columns_never_retained [OF h,
      where dst = emptyPool and
        dPos = rowPos and
        oPos = origin and
        grdMBufI = ridgeM and
        gYBufI = ridgeY and
        gXBufI = ridgeX and
        eps = DBL_EPSILON and
        grdMBufD = ridgeMD and
        gYBufD = ridgeYD and
        gXBufD = ridgeXD and
        minGI = 0 and
        minGD = 0]
  show ?thesis by blast
qed

text \<open>
  Claim C5.  Fix the rows and take two thresholds \<open>t1 \<le> t2\<close> of the active numeric
  kind.  Integer scanner, both runs successful: every interior pixel that has a
  non-zero direction byte under \<open>t2\<close> has the same byte under \<open>t1\<close>, and the columns
  covered by the runs appended under \<open>t2\<close> are covered by the runs appended under
  \<open>t1\<close>.  Floating scanner (for any sample type whose order is a preorder): the same
  for the direction bytes, and the destination is the same (unchanged) under both.
\<close>

theorem threshold_monotone:
  fixes minD1 :: "'a::{zero,times,minus,inverse,preorder}"
  assumes "minI1 \<le>s minI2" and "minD1 \<le> minD2"
    and "1 \<le> j" and "int j \<le> dstLen - 2" and "nat dstLen \<le> length buf"
  shows "(let (e1, buf1, dst1) = WlzNMSuppress2DBufI dst grdMBufI gYBufI gXBufI buf dstLen dPos oPos minI1;
              (e2, buf2, dst2) = WlzNMSuppress2DBufI dst grdMBufI gYBufI gXBufI buf dstLen dPos oPos minI2
          in e1 = WLZ_ERR_NONE \<and> e2 = WLZ_ERR_NONE \<longrightarrow>
               (buf2 ! j \<noteq> 0 \<longrightarrow> buf1 ! j = buf2 ! j) \<and>
               (\<exists>new1 new2. itvs dst1 = itvs dst @ new1 \<and> itvs dst2 = itvs dst @ new2 \<and>
                    covered new2 \<subseteq> covered new1)) \<and>
         (let (e1, buf1, dst1) = WlzNMSuppress2DBufD eps dst grdMBufD gYBufD gXBufD buf dstLen dPos oPos minD1;
              (e2, buf2, dst2) = WlzNMSuppress2DBufD eps dst grdMBufD gYBufD gXBufD buf dstLen dPos oPos minD2
          in (buf2 ! j \<noteq> 0 \<longrightarrow> buf1 ! j = buf2 ! j) \<and> dst1 = dst2)"
proof -
  obtain e1 buf1 dst1 where
    I1: "WlzNMSuppress2DBufI dst grdMBufI gYBufI gXBufI buf dstLen dPos oPos minI1 = (e1, buf1, dst1)"
    by (metis prod_cases3)
  obtain e2 buf2 dst2 where
    I2: "WlzNMSuppress2DBufI dst grdMBufI gYBufI gXBufI buf dstLen dPos oPos minI2 = (e2, buf2, dst2)"
    by (metis prod_cases3)
  obtain e1' bufD1 dstD1 where
    D1: "WlzNMSuppress2DBufD eps dst grdMBufD gYBufD gXBufD buf dstLen dPos oPos minD1 = (e1', bufD1, dstD1)"
    by (metis prod_cases3)
  obtain e2' bufD2 dstD2 where
    D2: "WlzNMSuppress2DBufD eps dst grdMBufD gYBufD gXBufD buf dstLen dPos oPos minD2 = (e2', bufD2, dstD2)"
    by (metis prod_cases3)
  from assms have n: "1 \<le> dstLen" by linarith
  note r1 = BufI_result [OF I1 n assms(5) refl]
  note r2 = BufI_result [OF I2 n assms(5) refl]
  note d1 = BufD_result [OF D1 n assms(5) refl]
  note d2 = BufD_result [OF D2 n assms(5) refl]
  have A: "(buf2 ! j \<noteq> 0 \<longrightarrow> buf1 ! j = buf2 ! j) \<and>
           (\<exists>new1 new2. itvs dst1 = itvs dst @ new1 \<and> itvs dst2 = itvs dst @ new2 \<and>
                    covered new2 \<subseteq> covered new1)"
    if ok: "e1 = WLZ_ERR_NONE" "e2 = WLZ_ERR_NONE"
  proof
    show "buf2 ! j \<noteq> 0 \<longrightarrow> buf1 ! j = buf2 ! j"
    proof
      assume nz: "buf2 ! j \<noteq> 0"
      have b2: "buf2 ! j = byte_of (pixI (scan_inputs grdMBufI gYBufI gXBufI dPos oPos minI2) j)"
        by (rule r2(4) [OF ok(2) assms(3,4)])
      with nz obtain c where c: "pixI (scan_inputs grdMBufI gYBufI gXBufI dPos oPos minI2) j = Some c"
        by (cases "pixI (scan_inputs grdMBufI gYBufI gXBufI dPos oPos minI2) j") simp_all
      have "buf1 ! j = byte_of (pixI (scan_inputs grdMBufI gYBufI gXBufI dPos oPos minI1) j)"
        by (rule r1(4) [OF ok(1) assms(3,4)])
      with pixI_mono [OF assms(1) c] b2 c show "buf1 ! j = buf2 ! j" by simp
    qed
    from r1(5) ok(1) obtain new1 where n1: "itvs dst1 = itvs dst @ new1"
      "covered new1 = retained_cols (scan_inputs grdMBufI gYBufI gXBufI dPos oPos minI1) (nat (dstLen - 2))"
      by blast
    from r2(5) ok(2) obtain new2 where n2: "itvs dst2 = itvs dst @ new2"
      "covered new2 = retained_cols (scan_inputs grdMBufI gYBufI gXBufI dPos oPos minI2) (nat (dstLen - 2))"
      by blast
    from n1 n2 retained_cols_mono [OF assms(1)]
    show "\<exists>new1 new2. itvs dst1 = itvs dst @ new1 \<and> itvs dst2 = itvs dst @ new2 \<and>
                    covered new2 \<subseteq> covered new1"
      by metis
  qed
  have B: "(bufD2 ! j \<noteq> 0 \<longrightarrow> bufD1 ! j = bufD2 ! j) \<and> dstD1 = dstD2"
  proof
    show "bufD2 ! j \<noteq> 0 \<longrightarrow> bufD1 ! j = bufD2 ! j"
    proof
      assume nz: "bufD2 ! j \<noteq> 0"
      have b2: "bufD2 ! j = byte_of (pixD eps (scan_inputs grdMBufD gYBufD gXBufD dPos oPos minD2) j)"
        by (rule d2(6) [OF assms(3,4)])
      with nz obtain c where c: "pixD eps (scan_inputs grdMBufD gYBufD gXBufD dPos oPos minD2) j = Some c"
        by (cases "pixD eps (scan_inputs grdMBufD gYBufD gXBufD dPos oPos minD2) j") simp_all
      have "bufD1 ! j = byte_of (pixD eps (scan_inputs grdMBufD gYBufD gXBufD dPos oPos minD1) j)"
        by (rule d1(6) [OF assms(3,4)])
      with pixD_mono [OF assms(2) c] b2 c show "bufD1 ! j = bufD2 ! j" by simp
    qed
    show "dstD1 = dstD2" using d1(2) d2(2) by simp
  qed
  from A B show ?thesis
    unfolding I1 I2 D1 D2 Let_def prod.case by blast
qed

theorem threshold_monotone_witness:
  "(5::cint) \<le>s 20 \<and>
   (5::real) \<le> 20 \<and>
   1 \<le> (2::nat) \<and>
   int 2 \<le> 5 - 2 \<and>
   nat 5 \<le> length dirBuf \<and>
   WlzNMSuppress2DBufI emptyPool ridgeM ridgeY ridgeX dirBuf 5 rowPos origin 5 =
     (WLZ_ERR_NONE, [0, 134, 134, 134, 0], \<lparr>itvs = [(11, 101, 3)], avail = 4\<rparr>) \<and>
   WlzNMSuppress2DBufI emptyPool ridgeM ridgeY ridgeX dirBuf 5 rowPos origin 20 =
     (WLZ_ERR_NONE, [0, 134, 134, 134, 0], \<lparr>itvs = [(11, 101, 3)], avail = 4\<rparr>) \<and>
   WlzNMSuppress2DBufD DBL_EPSILON emptyPool ridgeMD ridgeYD ridgeXD dirBuf 5 rowPos origin 5 =
     (WLZ_ERR_NONE, [0, 134, 134, 134, 0], \<lparr>itvs = [], avail = 5\<rparr>) \<and>
   WlzNMSuppress2DBufD DBL_EPSILON emptyPool ridgeMD ridgeYD ridgeXD dirBuf 5 rowPos origin 20 =
     (WLZ_ERR_NONE, [0, 134, 134, 134, 0], \<lparr>itvs = [], avail = 5\<rparr>) \<and>
   ((let (e1, buf1, dst1) = WlzNMSuppress2DBufI emptyPool ridgeM ridgeY ridgeX dirBuf 5 rowPos origin 5;
              (e2, buf2, dst2) = WlzNMSuppress2DBufI emptyPool ridgeM ridgeY ridgeX dirBuf 5 rowPos origin 20
          in e1 = WLZ_ERR_NONE \<and> e2 = WLZ_ERR_NONE \<longrightarrow>
               (buf2 ! 2 \<noteq> 0 \<longrightarrow> buf1 ! 2 = buf2 ! 2) \<and>
               (\<exists>new1 new2. itvs dst1 = itvs emptyPool @ new1 \<and> itvs dst2 = itvs emptyPool @ new2 \<and>
                    covered new2 \<subseteq> covered new1)) \<and>
         (let (e1, buf1, dst1) = WlzNMSuppress2DBufD DBL_EPSILON emptyPool ridgeMD ridgeYD ridgeXD dirBuf 5 rowPos origin 5;
              (e2, buf2, dst2) = WlzNMSuppress2DBufD DBL_EPSILON emptyPool ridgeMD ridgeYD ridgeXD dirBuf 5 rowPos origin 20
          in (buf2 ! 2 \<noteq> 0 \<longrightarrow> buf1 ! 2 = buf2 ! 2) \<and> dst1 = dst2))"
proof -
  have h: "(5::cint) \<le>s 20"
    "(5::real) \<le> 20"
    "1 \<le> (2::nat)"
    "int 2 \<le> 5 - 2"
    "nat 5 \<le> length dirBuf"
    by (simp_all add: dirBuf_def)
  have v: "WlzNMSuppress2DBufI emptyPool ridgeM ridgeY ridgeX dirBuf 5 rowPos origin 5 =
     (WLZ_ERR_NONE, [0, 134, 134, 134, 0], \<lparr>itvs = [(11, 101, 3)], avail = 4\<rparr>)"
    "WlzNMSuppress2DBufI emptyPool ridgeM ridgeY ridgeX dirBuf 5 rowPos origin 20 =
     (WLZ_ERR_NONE, [0, 134, 134, 134, 0], \<lparr>itvs = [(11, 101, 3)], avail = 4\<rparr>)"
    "WlzNMSuppress2DBufD DBL_EPSILON emptyPool ridgeMD ridgeYD ridgeXD dirBuf 5 rowPos origin 5 =
     (WLZ_ERR_NONE, [0, 134, 134, 134, 0], \<lparr>itvs = [], avail = 5\<rparr>)"
    "WlzNMSuppress2DBufD DBL_EPSILON emptyPool ridgeMD ridgeYD ridgeXD dirBuf 5 rowPos origin 20 =
     (WLZ_ERR_NONE, [0, 134, 134, 134, 0], \<lparr>itvs = [], avail = 5\<rparr>)"
    by code_simp+
  from h v threshold_monotone [OF h,
      where dst = emptyPool and
        dPos = rowPos and
        oPos = origin and
        grdMBufI = ridgeM and
        gYBufI = ridgeY and
        gXBufI = ridgeX and
        eps = DBL_EPSILON and
        grdMBufD = ridgeMD and
        gYBufD = ridgeYD and
        gXBufD = ridgeXD]
  show ?thesis by blast
qed

text \<open>
  Claim C6 fails as stated.  On the row below (magnitudes 2 4 2 4 2 between two rows of
  2, \<open>gY = 0\<close>, \<open>gX = 1\<close>, threshold 0; every floating operation is exact) the slopes
  of pixels 1 and 3 are \<open>2 / 4\<close>: the integer division truncates them to 0 and the
  integer scanner retains nothing, the floating scanner computes 0.5 and retains both
  pixels with byte 135.
\<close>

theorem integer_and_floating_scanner_disagree:
  "WlzNMSuppress2DBufI \<lparr>itvs = [], avail = 5\<rparr>
       [[2, 2, 2, 2, 2], [2, 4, 2, 4, 2], [2, 2, 2, 2, 2]] [0, 0, 0, 0, 0] [1, 1, 1, 1, 1]
       [9, 9, 9, 9, 9] 5 \<lparr>vtX = 0, vtY = 1\<rparr> \<lparr>vtX = 100, vtY = 10\<rparr> 0 =
     (WLZ_ERR_NONE, [0, 0, 0, 0, 0], \<lparr>itvs = [], avail = 5\<rparr>) \<and>
   WlzNMSuppress2DBufD DBL_EPSILON \<lparr>itvs = [], avail = 5\<rparr>
       [[2, 2, 2, 2, 2], [2, 4, 2, 4, 2], [2, 2, 2, 2, 2]] [0, 0, 0, 0, 0] [1, 1, 1, 1, 1]
       [9, 9, 9, 9, 9] 5 \<lparr>vtX = 0, vtY = 1\<rparr> \<lparr>vtX = 100, vtY = 10\<rparr> 0 =
     (WLZ_ERR_NONE, [0, 135, 0, 135, 0], \<lparr>itvs = [], avail = 5\<rparr>)"
  by code_simp

text \<open>
  Claim C6, amended.  Take rows whose magnitude and derivative samples are integers of
  absolute value at most \<open>2\<^sup>1\<^sup>4\<close> (so that no 32-bit operation of the integer scanner
  overflows), give the floating scanner the same samples and threshold converted to
  floating values, and take the floating operations exact.  Then for every interior
  pixel both scanners compute the same index into the direction table, and a pixel that
  a successful run of the integer scanner retains is retained by the floating scanner
  with the same direction byte.  (The floating scanner may retain more pixels: the
  integer scanner's slopes are quotients truncated towards zero.  Nothing is said of
  the runs of the floating scanner.)
\<close>

theorem integer_retained_implies_floating_retained:
  assumes "1 \<le> j" and "int j \<le> dstLen - 2" and "nat dstLen \<le> length buf"
    and "length grdMBuf = 3" and "0 \<le> vtY dPos"
    and "\<forall>r \<in> set grdMBuf. small_row r \<and> nat (vtX dPos) + nat dstLen \<le> length r"
    and "small_row gYBuf" and "small_row gXBuf"
    and "nat dstLen \<le> length gYBuf" and "nat dstLen \<le> length gXBuf"
  shows "(let (eI, bufI, dstI) =
                 WlzNMSuppress2DBufI dst grdMBuf gYBuf gXBuf buf dstLen dPos oPos minG;
              (eD, bufD, dstD) =
                 WlzNMSuppress2DBufD DBL_EPSILON dst (map (map to_double) grdMBuf)
                   (map to_double gYBuf) (map to_double gXBuf) buf dstLen dPos oPos (to_double minG)
          in dIndexD (to_double (gYBuf ! j)) (to_double (gXBuf ! j)) = dIndexI (gYBuf ! j) (gXBuf ! j) \<and>
             (eI = WLZ_ERR_NONE \<and> bufI ! j \<noteq> 0 \<longrightarrow> bufD ! j = bufI ! j))"
proof -
  obtain eI bufI dstI where
    I: "WlzNMSuppress2DBufI dst grdMBuf gYBuf gXBuf buf dstLen dPos oPos minG = (eI, bufI, dstI)"
    by (metis prod_cases3)
  obtain eD bufD dstD where
    D: "WlzNMSuppress2DBufD DBL_EPSILON dst (map (map to_double) grdMBuf)
          (map to_double gYBuf) (map to_double gXBuf) buf dstLen dPos oPos (to_double minG)
        = (eD, bufD, dstD)"
    by (metis prod_cases3)
  from assms have n: "1 \<le> dstLen" by linarith
  have jl: "j < length gYBuf" "j < length gXBuf" using assms(1,2,9,10) by linarith+
  have "small_sample (gYBuf ! j)" "small_sample (gXBuf ! j)"
    using assms(7,8) jl by (simp_all add: small_nth)
  then have 1: "dIndexD (to_double (gYBuf ! j)) (to_double (gXBuf ! j)) = dIndexI (gYBuf ! j) (gXBuf ! j)"
    by (rule dIndex_transfer)
  have 2: "bufD ! j = bufI ! j" if ok: "eI = WLZ_ERR_NONE" and nz: "bufI ! j \<noteq> 0"
  proof -
    have bI: "bufI ! j = byte_of (pixI (scan_inputs grdMBuf gYBuf gXBuf dPos oPos minG) j)"
      by (rule BufI_result(4) [OF I n assms(3) refl ok assms(1,2)])
    with nz obtain c where c: "pixI (scan_inputs grdMBuf gYBuf gXBuf dPos oPos minG) j = Some c"
      by (cases "pixI (scan_inputs grdMBuf gYBuf gXBuf dPos oPos minG) j") simp_all
    have "bufD ! j = byte_of (pixD DBL_EPSILON
           (scan_inputs (map (map to_double) grdMBuf) (map to_double gYBuf) (map to_double gXBuf)
              dPos oPos (to_double minG)) j)"
      by (rule BufD_result(6) [OF D n assms(3) refl assms(1,2)])
    also have "\<dots> = byte_of (Some c)"
      by (simp only: pixI_transfer [OF assms(1,2,4-10) c])
    finally show ?thesis by (simp add: bI c)
  qed
  from 1 2 show ?thesis
    unfolding I D Let_def prod.case by blast
qed

theorem integer_retained_implies_floating_retained_witness:
  "1 \<le> (2::nat) \<and>
   int 2 \<le> 5 - 2 \<and>
   nat 5 \<le> length dirBuf \<and>
   length ridgeM = 3 \<and>
   0 \<le> vtY rowPos \<and>
   list_all (\<lambda>r. small_row r \<and> nat (vtX rowPos) + nat 5 \<le> length r) ridgeM \<and>
   small_row ridgeY \<and>
   small_row ridgeX \<and>
   nat 5 \<le> length ridgeY \<and>
   nat 5 \<le> length ridgeX \<and>
   WlzNMSuppress2DBufI emptyPool ridgeM ridgeY ridgeX dirBuf 5 rowPos origin 0 =
     (WLZ_ERR_NONE, [0, 134, 134, 134, 0], \<lparr>itvs = [(11, 101, 3)], avail = 4\<rparr>) \<and>
   WlzNMSuppress2DBufD DBL_EPSILON emptyPool (map (map to_double) ridgeM) (map to_double ridgeY)
       (map to_double ridgeX) dirBuf 5 rowPos origin (to_double 0) =
     (WLZ_ERR_NONE, [0, 134, 134, 134, 0], \<lparr>itvs = [], avail = 5\<rparr>) \<and>
   ((let (eI, bufI, dstI) =
                 WlzNMSuppress2DBufI emptyPool ridgeM ridgeY ridgeX dirBuf 5 rowPos origin 0;
              (eD, bufD, dstD) =
                 WlzNMSuppress2DBufD DBL_EPSILON emptyPool (map (map to_double) ridgeM)
                   (map to_double ridgeY) (map to_double ridgeX) dirBuf 5 rowPos origin (to_double 0)
          in dIndexD (to_double (ridgeY ! 2)) (to_double (ridgeX ! 2)) = dIndexI (ridgeY ! 2) (ridgeX ! 2) \<and>
             (eI = WLZ_ERR_NONE \<and> bufI ! 2 \<noteq> 0 \<longrightarrow> bufD ! 2 = bufI ! 2)))"
proof -
  have h: "1 \<le> (2::nat)"
    "int 2 \<le> 5 - 2"
    "nat 5 \<le> length dirBuf"
    "length ridgeM = 3"
    "0 \<le> vtY rowPos"
    "\<forall>r \<in> set ridgeM. small_row r \<and> nat (vtX rowPos) + nat 5 \<le> length r"
    "small_row ridgeY"
    "small_row ridgeX"
    "nat 5 \<le> length ridgeY"
    "nat 5 \<le> length ridgeX"
    by (simp_all add: dirBuf_def ridgeM_def ridgeY_def ridgeX_def rowPos_def small_row_def small_sample_def)
  have v: "WlzNMSuppress2DBufI emptyPool ridgeM ridgeY ridgeX dirBuf 5 rowPos origin 0 =
     (WLZ_ERR_NONE, [0, 134, 134, 134, 0], \<lparr>itvs = [(11, 101, 3)], avail = 4\<rparr>)"
    "WlzNMSuppress2DBufD DBL_EPSILON emptyPool (map (map to_double) ridgeM) (map to_double ridgeY)
       (map to_double ridgeX) dirBuf 5 rowPos origin (to_double 0) =
     (WLZ_ERR_NONE, [0, 134, 134, 134, 0], \<lparr>itvs = [], avail = 5\<rparr>)"
    by code_simp+
  from h v integer_retained_implies_floating_retained [OF h,
      where dst = emptyPool and
        oPos = origin and
        minG = 0]
  show ?thesis by (simp add: list_all_iff)
qed

text \<open>
  Claim C7.  For three non-null 2D objects with domains that share no pixel,
  \<open>WlzNMSuppress\<close> returns the empty object and \<open>WLZ_ERR_NONE\<close>, whatever \<open>grdZ\<close> and the
  threshold are.
\<close>

theorem empty_intersection_is_not_an_error:
  assumes "otype m = WLZ_2D_DOMAINOBJ" and "otype y = WLZ_2D_DOMAINOBJ"
    and "otype x = WLZ_2D_DOMAINOBJ"
    and "odomain m = Some dm" and "odomain y = Some dy" and "odomain x = Some dx"
    and "dm \<inter> dy \<inter> dx = {}"
  shows "WlzNMSuppress scan (Some m) grdZ (Some y) (Some x) minThrV =
           (WLZ_ERR_NONE, Some \<lparr>otype = WLZ_EMPTY_OBJ, odomain = None, ovalues = None\<rparr>)"
proof -
  have "WlzIntersectN [Some m, Some y, Some x] = WlzMakeEmpty"
    using assms by (simp add: WlzIntersectN_def Let_def Int_assoc)
  then show ?thesis
    using assms(1) by (simp add: WlzNMSuppress_def WlzMakeEmpty_def)
qed

theorem empty_intersection_is_not_an_error_witness:
  "otype \<lparr>otype = WLZ_2D_DOMAINOBJ, odomain = Some {(0, 0, 0), (0, 0, 1)}, ovalues = Some (1::nat)\<rparr> = WLZ_2D_DOMAINOBJ \<and>
   otype \<lparr>otype = WLZ_2D_DOMAINOBJ, odomain = Some {(0, 1, 0)}, ovalues = Some (2::nat)\<rparr> = WLZ_2D_DOMAINOBJ \<and>
   otype \<lparr>otype = WLZ_2D_DOMAINOBJ, odomain = Some {(0, 0, 0)}, ovalues = Some (3::nat)\<rparr> = WLZ_2D_DOMAINOBJ \<and>
   odomain \<lparr>otype = WLZ_2D_DOMAINOBJ, odomain = Some {(0, 0, 0), (0, 0, 1)}, ovalues = Some (1::nat)\<rparr> = Some {(0, 0, 0), (0, 0, 1)} \<and>
   odomain \<lparr>otype = WLZ_2D_DOMAINOBJ, odomain = Some {(0, 1, 0)}, ovalues = Some (2::nat)\<rparr> = Some {(0, 1, 0)} \<and>
   odomain \<lparr>otype = WLZ_2D_DOMAINOBJ, odomain = Some {(0, 0, 0)}, ovalues = Some (3::nat)\<rparr> = Some {(0, 0, 0)} \<and>
   {(0, 0, 0), (0, 0, 1)} \<inter> {(0, 1, 0)} \<inter> {(0, 0, 0)} = ({} :: (int \<times> int \<times> int) set) \<and>
   WlzNMSuppress (\<lambda>a b c (t::int). (WLZ_ERR_NONE, Some a))
      (Some \<lparr>otype = WLZ_2D_DOMAINOBJ, odomain = Some {(0, 0, 0), (0, 0, 1)}, ovalues = Some (1::nat)\<rparr>) None
      (Some \<lparr>otype = WLZ_2D_DOMAINOBJ, odomain = Some {(0, 1, 0)}, ovalues = Some (2::nat)\<rparr>)
      (Some \<lparr>otype = WLZ_2D_DOMAINOBJ, odomain = Some {(0, 0, 0)}, ovalues = Some (3::nat)\<rparr>) 5 =
     (WLZ_ERR_NONE, Some \<lparr>otype = WLZ_EMPTY_OBJ, odomain = None, ovalues = None\<rparr>)"
proof -
  have h: "otype \<lparr>otype = WLZ_2D_DOMAINOBJ, odomain = Some {(0, 0, 0), (0, 0, 1)}, ovalues = Some (1::nat)\<rparr> = WLZ_2D_DOMAINOBJ"
    "otype \<lparr>otype = WLZ_2D_DOMAINOBJ, odomain = Some {(0, 1, 0)}, ovalues = Some (2::nat)\<rparr> = WLZ_2D_DOMAINOBJ"
    "otype \<lparr>otype = WLZ_2D_DOMAINOBJ, odomain = Some {(0, 0, 0)}, ovalues = Some (3::nat)\<rparr> = WLZ_2D_DOMAINOBJ"
    "odomain \<lparr>otype = WLZ_2D_DOMAINOBJ, odomain = Some {(0, 0, 0), (0, 0, 1)}, ovalues = Some (1::nat)\<rparr> = Some {(0, 0, 0), (0, 0, 1)}"
    "odomain \<lparr>otype = WLZ_2D_DOMAINOBJ, odomain = Some {(0, 1, 0)}, ovalues = Some (2::nat)\<rparr> = Some {(0, 1, 0)}"
    "odomain \<lparr>otype = WLZ_2D_DOMAINOBJ, odomain = Some {(0, 0, 0)}, ovalues = Some (3::nat)\<rparr> = Some {(0, 0, 0)}"
    "{(0, 0, 0), (0, 0, 1)} \<inter> {(0, 1, 0)} \<inter> {(0, 0, 0)} = ({} :: (int \<times> int \<times> int) set)"
    by simp_all
  from h empty_intersection_is_not_an_error [OF h, where scan = "(\<lambda>a b c (t::int). (WLZ_ERR_NONE, Some a))" and grdZ = None and minThrV = 5]
  show ?thesis by blast
qed

text \<open>
  Claim C8.  When the magnitude object is a 3D domain object and the intersection of the
  four objects is computed without error and is not the empty object, \<open>WlzNMSuppress\<close>
  returns \<open>WLZ_ERR_OBJECT_TYPE\<close> and the NULL object.
\<close>

theorem three_d_path_fails:
  assumes "otype m = WLZ_3D_DOMAINOBJ"
    and "WlzIntersectN [Some m, grdZ, grdY, grdX] = (WLZ_ERR_NONE, Some ist)"
    and "otype ist \<noteq> WLZ_EMPTY_OBJ"
  shows "WlzNMSuppress scan (Some m) grdZ grdY grdX minThrV = (WLZ_ERR_OBJECT_TYPE, None)"
  using assms
  by (cases "otype ist")
     (simp_all add: WlzNMSuppress_def WlzMakeMain_def WlzNMSuppress3D_def)

theorem three_d_path_fails_witness:
  "otype \<lparr>otype = WLZ_3D_DOMAINOBJ, odomain = Some {(0, 0, 0), (1, 0, 0)}, ovalues = Some (1::nat)\<rparr> = WLZ_3D_DOMAINOBJ \<and>
   WlzIntersectN [Some \<lparr>otype = WLZ_3D_DOMAINOBJ, odomain = Some {(0, 0, 0), (1, 0, 0)}, ovalues = Some (1::nat)\<rparr>,
                  Some \<lparr>otype = WLZ_3D_DOMAINOBJ, odomain = Some {(0, 0, 0), (1, 0, 0)}, ovalues = Some (2::nat)\<rparr>,
                  Some \<lparr>otype = WLZ_3D_DOMAINOBJ, odomain = Some {(0, 0, 0), (1, 0, 0)}, ovalues = Some (3::nat)\<rparr>,
                  Some \<lparr>otype = WLZ_3D_DOMAINOBJ, odomain = Some {(0, 0, 0), (1, 0, 0)}, ovalues = Some (4::nat)\<rparr>] =
     (WLZ_ERR_NONE, Some \<lparr>otype = WLZ_3D_DOMAINOBJ, odomain = Some {(0, 0, 0), (1, 0, 0)}, ovalues = None\<rparr>) \<and>
   otype \<lparr>otype = WLZ_3D_DOMAINOBJ, odomain = Some {(0, 0, 0), (1, 0, 0)}, ovalues = None\<rparr> \<noteq> WLZ_EMPTY_OBJ \<and>
   WlzNMSuppress (\<lambda>a b c (t::int). (WLZ_ERR_NONE, Some a))
      (Some \<lparr>otype = WLZ_3D_DOMAINOBJ, odomain = Some {(0, 0, 0), (1, 0, 0)}, ovalues = Some (1::nat)\<rparr>)
      (Some \<lparr>otype = WLZ_3D_DOMAINOBJ, odomain = Some {(0, 0, 0), (1, 0, 0)}, ovalues = Some (2::nat)\<rparr>)
      (Some \<lparr>otype = WLZ_3D_DOMAINOBJ, odomain = Some {(0, 0, 0), (1, 0, 0)}, ovalues = Some (3::nat)\<rparr>)
      (Some \<lparr>otype = WLZ_3D_DOMAINOBJ, odomain = Some {(0, 0, 0), (1, 0, 0)}, ovalues = Some (4::nat)\<rparr>) 5 =
     (WLZ_ERR_OBJECT_TYPE, None)"
proof -
  have h: "otype \<lparr>otype = WLZ_3D_DOMAINOBJ, odomain = Some {(0, 0, 0), (1, 0, 0)}, ovalues = Some (1::nat)\<rparr> = WLZ_3D_DOMAINOBJ"
    "WlzIntersectN [Some \<lparr>otype = WLZ_3D_DOMAINOBJ, odomain = Some {(0, 0, 0), (1, 0, 0)}, ovalues = Some (1::nat)\<rparr>,
                  Some \<lparr>otype = WLZ_3D_DOMAINOBJ, odomain = Some {(0, 0, 0), (1, 0, 0)}, ovalues = Some (2::nat)\<rparr>,
                  Some \<lparr>otype = WLZ_3D_DOMAINOBJ, odomain = Some {(0, 0, 0), (1, 0, 0)}, ovalues = Some (3::nat)\<rparr>,
                  Some \<lparr>otype = WLZ_3D_DOMAINOBJ, odomain = Some {(0, 0, 0), (1, 0, 0)}, ovalues = Some (4::nat)\<rparr>] =
     (WLZ_ERR_NONE, Some \<lparr>otype = WLZ_3D_DOMAINOBJ, odomain = Some {(0, 0, 0), (1, 0, 0)}, ovalues = None\<rparr>)"
    "otype \<lparr>otype = WLZ_3D_DOMAINOBJ, odomain = Some {(0, 0, 0), (1, 0, 0)}, ovalues = None\<rparr> \<noteq> WLZ_EMPTY_OBJ"
    by (simp_all add: WlzIntersectN_def)
  from h three_d_path_fails [OF h, where scan = "(\<lambda>a b c (t::int). (WLZ_ERR_NONE, Some a))" and minThrV = 5]
  show ?thesis by blast
qed

text \<open>
  Claim C9.  When the magnitude object is a 2D domain object, the error code and the
  object returned by \<open>WlzNMSuppress\<close> do not depend on \<open>grdZ\<close>: two calls that differ in
  \<open>grdZ\<close> only (NULL or not) return the same pair.
\<close>

theorem two_d_result_ignores_grdZ:
  assumes "otype m = WLZ_2D_DOMAINOBJ"
  shows "WlzNMSuppress scan (Some m) grdZ grdY grdX minThrV =
         WlzNMSuppress scan (Some m) grdZ' grdY grdX minThrV"
  using assms by (simp add: WlzNMSuppress_def)

theorem two_d_result_ignores_grdZ_witness:
  "otype \<lparr>otype = WLZ_2D_DOMAINOBJ, odomain = Some {(0, 0, 0), (0, 0, 1)}, ovalues = Some (1::nat)\<rparr> = WLZ_2D_DOMAINOBJ \<and>
   WlzNMSuppress (\<lambda>a b c (t::int). (WLZ_ERR_NONE, Some a))
      (Some \<lparr>otype = WLZ_2D_DOMAINOBJ, odomain = Some {(0, 0, 0), (0, 0, 1)}, ovalues = Some (1::nat)\<rparr>) None
      (Some \<lparr>otype = WLZ_2D_DOMAINOBJ, odomain = Some {(0, 0, 0), (0, 0, 1)}, ovalues = Some (1::nat)\<rparr>)
      (Some \<lparr>otype = WLZ_2D_DOMAINOBJ, odomain = Some {(0, 0, 0)}, ovalues = Some (3::nat)\<rparr>) 5 =
   WlzNMSuppress (\<lambda>a b c (t::int). (WLZ_ERR_NONE, Some a))
      (Some \<lparr>otype = WLZ_2D_DOMAINOBJ, odomain = Some {(0, 0, 0), (0, 0, 1)}, ovalues = Some (1::nat)\<rparr>)
      (Some \<lparr>otype = WLZ_3D_DOMAINOBJ, odomain = Some {(0, 0, 0), (1, 0, 0)}, ovalues = Some (2::nat)\<rparr>)
      (Some \<lparr>otype = WLZ_2D_DOMAINOBJ, odomain = Some {(0, 0, 0), (0, 0, 1)}, ovalues = Some (1::nat)\<rparr>)
      (Some \<lparr>otype = WLZ_2D_DOMAINOBJ, odomain = Some {(0, 0, 0)}, ovalues = Some (3::nat)\<rparr>) 5"
proof -
  have h: "otype \<lparr>otype = WLZ_2D_DOMAINOBJ, odomain = Some {(0, 0, 0), (0, 0, 1)}, ovalues = Some (1::nat)\<rparr> = WLZ_2D_DOMAINOBJ"
    by simp
  from h two_d_result_ignores_grdZ [OF h, where scan = "(\<lambda>a b c (t::int). (WLZ_ERR_NONE, Some a))" and minThrV = 5
      and grdZ = None and grdZ' = "Some \<lparr>otype = WLZ_3D_DOMAINOBJ, odomain = Some {(0, 0, 0), (1, 0, 0)}, ovalues = Some (2::nat)\<rparr>"
      and grdY = "Some \<lparr>otype = WLZ_2D_DOMAINOBJ, odomain = Some {(0, 0, 0), (0, 0, 1)}, ovalues = Some (1::nat)\<rparr>"
      and grdX = "Some \<lparr>otype = WLZ_2D_DOMAINOBJ, odomain = Some {(0, 0, 0)}, ovalues = Some (3::nat)\<rparr>"]
  show ?thesis by blast
qed

text \<open>
  Claim C10.  For an output row of length 1 or 2 neither scanner enters its loop: the
  only writes are the two zero bytes at the boundary positions, no run is appended
  (the destination is returned as it was given) and the result is \<open>WLZ_ERR_NONE\<close>,
  whatever the gradient rows and the threshold are.
\<close>

theorem short_rows_are_not_scanned:
  assumes "dstLen = 1 \<or> dstLen = 2"
  shows "WlzNMSuppress2DBufI dst grdMBufI gYBufI gXBufI buf dstLen dPos oPos minGI =
          (WLZ_ERR_NONE, (buf[0 := 0])[nat (dstLen - 1) := 0], dst) \<and>
         WlzNMSuppress2DBufD eps dst grdMBufD gYBufD gXBufD buf dstLen dPos oPos minGD =
          (WLZ_ERR_NONE, (buf[0 := 0])[nat (dstLen - 1) := 0], dst)"
proof -
  from assms have "dstLen \<le> 2" by auto
  then show ?thesis by (simp add: short_rowI short_rowD)
qed

theorem short_rows_are_not_scanned_witness:
  "((2::int) = 1 \<or> (2::int) = 2) \<and>
   WlzNMSuppress2DBufI \<lparr>itvs = [], avail = 0\<rparr> [[7, 7], [900, 900], [7, 7]] [5, 5] [5, 5]
       [201, 202] 2 \<lparr>vtX = 0, vtY = 1\<rparr> \<lparr>vtX = 10, vtY = 20\<rparr> 0 =
     (WLZ_ERR_NONE, [0, 0], \<lparr>itvs = [], avail = 0\<rparr>) \<and>
   WlzNMSuppress2DBufD DBL_EPSILON \<lparr>itvs = [], avail = 0\<rparr> [[7, 7], [900, 900], [7, 7]]
       [5, 5] [5, 5] [201, 202] 2 \<lparr>vtX = 0, vtY = 1\<rparr> \<lparr>vtX = 10, vtY = 20\<rparr> 0 =
     (WLZ_ERR_NONE, [0, 0], \<lparr>itvs = [], avail = 0\<rparr>)"
  using short_rows_are_not_scanned [of 2 "\<lparr>itvs = [], avail = 0\<rparr>" "[[7, 7], [900, 900], [7, 7]]"
      "[5, 5]" "[5, 5]" "[201, 202]" "\<lparr>vtX = 0, vtY = 1\<rparr>" "\<lparr>vtX = 10, vtY = 20\<rparr>" 0
      DBL_EPSILON "[[7, 7], [900, 900], [7, 7]]" "[5, 5]" "[5, 5]" 0]
  by simp

end
